theory Spec2Isabelle
  imports Main "HOL-Library.Word"
begin

section \<open>JavaScript strings and the regular expressions of the content script\<close>

text \<open>
  A JavaScript string is a sequence of UTF-16 code units. None of the regular expressions of
  the content script carries the \<open>u\<close> flag, so they match code unit by code unit.
\<close>

type_synonym jschar = "16 word"
type_synonym jsstring = "jschar list"

text \<open>ASCII literals, for readable examples.\<close>

definition js :: "string \<Rightarrow> jsstring" where
  "js s = map (\<lambda>c. of_nat (of_char c)) s"

subsection \<open>Character classes\<close>

text \<open>\<^verbatim>\<open>/[\u2014\u2013]/\<close>: em dash and en dash\<close>

definition is_dash :: "jschar \<Rightarrow> bool" where
  "is_dash c = (c = 0x2014 \<or> c = 0x2013)"

text \<open>\<^verbatim>\<open>/[\u201C\u201D]/\<close>, \<^verbatim>\<open>/[\u2018\u2019]/\<close> and \<^verbatim>\<open>/[\u201C\u201D\u2018\u2019]/\<close>\<close>

definition is_curly_double :: "jschar \<Rightarrow> bool" where
  "is_curly_double c = (c = 0x201C \<or> c = 0x201D)"

definition is_curly_single :: "jschar \<Rightarrow> bool" where
  "is_curly_single c = (c = 0x2018 \<or> c = 0x2019)"

definition is_curly_quote :: "jschar \<Rightarrow> bool" where
  "is_curly_quote c = (c = 0x201C \<or> c = 0x201D \<or> c = 0x2018 \<or> c = 0x2019)"

text \<open>\<^verbatim>\<open>/\u2026/\<close>\<close>

definition is_ellipsis :: "jschar \<Rightarrow> bool" where
  "is_ellipsis c = (c = 0x2026)"

text \<open>\<^verbatim>\<open>/[\u00A0\u2000-\u200F\u2028\u2029\u202F\u205F\u3000\uFEFF]/\<close>\<close>

definition is_invisible :: "jschar \<Rightarrow> bool" where
  "is_invisible c =
     (c = 0x00A0 \<or> (0x2000 \<le> c \<and> c \<le> 0x200F) \<or> c = 0x2028 \<or> c = 0x2029 \<or>
      c = 0x202F \<or> c = 0x205F \<or> c = 0x3000 \<or> c = 0xFEFF)"

text \<open>The class of the accent block, from U+00C0 to U+00FF.\<close>

definition is_latin1_range :: "jschar \<Rightarrow> bool" where
  "is_latin1_range c = (0x00C0 \<le> c \<and> c \<le> 0x00FF)"

text \<open>
  \<^verbatim>\<open>\s\<close>: the WhiteSpace and LineTerminator code points of ECMAScript, which are also the ones
  \<^verbatim>\<open>String.prototype.trim\<close> strips.
\<close>

definition is_space :: "jschar \<Rightarrow> bool" where
  "is_space c =
     (c = 0x0009 \<or> c = 0x000A \<or> c = 0x000B \<or> c = 0x000C \<or> c = 0x000D \<or> c = 0x0020 \<or>
      c = 0x00A0 \<or> c = 0x1680 \<or> (0x2000 \<le> c \<and> c \<le> 0x200A) \<or> c = 0x2028 \<or>
      c = 0x2029 \<or> c = 0x202F \<or> c = 0x205F \<or> c = 0x3000 \<or> c = 0xFEFF)"

subsection \<open>Matching and replacing\<close>

text \<open>
  \<^verbatim>\<open>str.match(/[class]/g)\<close>: the array of all matches, each one code unit long, or
  \<^verbatim>\<open>null\<close> when there is none.
\<close>

definition match_all :: "(jschar \<Rightarrow> bool) \<Rightarrow> jsstring \<Rightarrow> jsstring list option" where
  "match_all cls s =
     (let ms = map (\<lambda>c. [c]) (filter cls s) in if ms = [] then None else Some ms)"

text \<open>
  The replacement text of \<^verbatim>\<open>str.replace(regex, template)\<close> for one match (GetSubstitution of
  ECMAScript, for a regular expression without capture groups): \<^verbatim>\<open>$$\<close> is a dollar sign,
  \<^verbatim>\<open>$&\<close> the match, \<^verbatim>\<open>$`\<close> the part of the string before the match, \<^verbatim>\<open>$'\<close> the part after
  it. A dollar sign followed by anything else (also by a digit or by \<^verbatim>\<open><\<close>, as there are no
  groups to refer to) stands for itself.
\<close>

fun get_substitution :: "jsstring \<Rightarrow> jsstring \<Rightarrow> jsstring \<Rightarrow> jsstring \<Rightarrow> jsstring" where
  "get_substitution matched pre post [] = []"
| "get_substitution matched pre post [c] = [c]"
| "get_substitution matched pre post (c # d # rest) =
     (if c = 0x24 \<and> d = 0x24 then 0x24 # get_substitution matched pre post rest
      else if c = 0x24 \<and> d = 0x26 then matched @ get_substitution matched pre post rest
      else if c = 0x24 \<and> d = 0x60 then pre @ get_substitution matched pre post rest
      else if c = 0x24 \<and> d = 0x27 then post @ get_substitution matched pre post rest
      else c # get_substitution matched pre post (d # rest))"

text \<open>
  \<^verbatim>\<open>str.replace(/[class]/g, template)\<close>: every code unit of the class is replaced by the
  substitution of the template at that position; \<open>pre\<close> is the part of the original string
  already passed.
\<close>

fun replace_from :: "(jschar \<Rightarrow> bool) \<Rightarrow> jsstring \<Rightarrow> jsstring \<Rightarrow> jsstring \<Rightarrow> jsstring" where
  "replace_from cls template pre [] = []"
| "replace_from cls template pre (c # cs) =
     (if cls c then get_substitution [c] pre cs template else [c])
       @ replace_from cls template (pre @ [c]) cs"

definition replace_all :: "(jschar \<Rightarrow> bool) \<Rightarrow> jsstring \<Rightarrow> jsstring \<Rightarrow> jsstring" where
  "replace_all cls template s = replace_from cls template [] s"

text \<open>
  \<^verbatim>\<open>str.replace(/[class]/g, callback)\<close>: the callback's result is inserted as it is.
\<close>

definition replace_all_with :: "(jschar \<Rightarrow> bool) \<Rightarrow> (jschar \<Rightarrow> jsstring) \<Rightarrow> jsstring \<Rightarrow> jsstring" where
  "replace_all_with cls f s = concat (map (\<lambda>c. if cls c then f c else [c]) s)"

text \<open>\<^verbatim>\<open>str.match(/\s+/g)\<close>: the maximal runs of white space, from left to right.\<close>

function runs :: "(jschar \<Rightarrow> bool) \<Rightarrow> jsstring \<Rightarrow> jsstring list" where
  "runs cls [] = []"
| "runs cls (c # cs) =
     (if cls c then (c # takeWhile cls cs) # runs cls (dropWhile cls cs) else runs cls cs)"
  by pat_completeness auto
termination
  by (relation "measure (\<lambda>(cls, s). length s)") (auto simp: le_imp_less_Suc length_dropWhile_le)

definition match_runs :: "(jschar \<Rightarrow> bool) \<Rightarrow> jsstring \<Rightarrow> jsstring list option" where
  "match_runs cls s = (let ms = runs cls s in if ms = [] then None else Some ms)"

text \<open>\<^verbatim>\<open>str.replace(/\s+/g, ' ')\<close>: each maximal run becomes the replacement (no dollar sign in it).\<close>

function replace_runs :: "(jschar \<Rightarrow> bool) \<Rightarrow> jsstring \<Rightarrow> jsstring \<Rightarrow> jsstring" where
  "replace_runs cls r [] = []"
| "replace_runs cls r (c # cs) =
     (if cls c then r @ replace_runs cls r (dropWhile cls cs) else c # replace_runs cls r cs)"
  by pat_completeness auto
termination
  by (relation "measure (\<lambda>(cls, r, s). length s)") (auto simp: le_imp_less_Suc length_dropWhile_le)

text \<open>\<^verbatim>\<open>/[class]/.test(str)\<close> and \<^verbatim>\<open>/\s{2,}/.test(str)\<close>\<close>

definition test_class :: "(jschar \<Rightarrow> bool) \<Rightarrow> jsstring \<Rightarrow> bool" where
  "test_class cls s = list_ex cls s"

fun test_two :: "(jschar \<Rightarrow> bool) \<Rightarrow> jsstring \<Rightarrow> bool" where
  "test_two cls (c # d # cs) = ((cls c \<and> cls d) \<or> test_two cls (d # cs))"
| "test_two cls _ = False"

text \<open>\<^verbatim>\<open>str.trim()\<close>\<close>

definition trim :: "jsstring \<Rightarrow> jsstring" where
  "trim s = rev (dropWhile is_space (rev (dropWhile is_space s)))"

section \<open>Settings\<close>

text \<open>
  The fields of \<^verbatim>\<open>this.settings\<close> that the processor reads. (\<^verbatim>\<open>loadSettings\<close> also copies
  \<^verbatim>\<open>history\<close> and \<^verbatim>\<open>totalReplacements\<close> into the object; nothing reads them there.)
\<close>

record settings =
  replacer :: jsstring
  fixEmDash :: bool
  fixCurlyQuotes :: bool
  fixEllipsis :: bool
  fixInvisibleChars :: bool
  fixAccents :: bool
  fixSpaces :: bool

section \<open>The transformations: \<^verbatim>\<open>applyTextFixes\<close>\<close>

record fix_counts =
  emDash :: nat
  curlyQuotes :: nat
  ellipsis :: nat
  invisibleChars :: nat
  accents :: nat
  spaces :: nat

definition no_fixes :: fix_counts where
  "no_fixes = \<lparr>emDash = 0, curlyQuotes = 0, ellipsis = 0, invisibleChars = 0, accents = 0, spaces = 0\<rparr>"

text \<open>The table \<^verbatim>\<open>accentMap\<close>; its keys are single code units of the Latin-1 supplement.\<close>

definition accent_table :: "(jschar \<times> jsstring) list" where
  "accent_table =
    [(0xC0, js ''A''), (0xC1, js ''A''), (0xC2, js ''A''), (0xC3, js ''A''), (0xC4, js ''A''), (0xC5, js ''A''),
     (0xE0, js ''a''), (0xE1, js ''a''), (0xE2, js ''a''), (0xE3, js ''a''), (0xE4, js ''a''), (0xE5, js ''a''),
     (0xC8, js ''E''), (0xC9, js ''E''), (0xCA, js ''E''), (0xCB, js ''E''),
     (0xE8, js ''e''), (0xE9, js ''e''), (0xEA, js ''e''), (0xEB, js ''e''),
     (0xCC, js ''I''), (0xCD, js ''I''), (0xCE, js ''I''), (0xCF, js ''I''),
     (0xEC, js ''i''), (0xED, js ''i''), (0xEE, js ''i''), (0xEF, js ''i''),
     (0xD2, js ''O''), (0xD3, js ''O''), (0xD4, js ''O''), (0xD5, js ''O''), (0xD6, js ''O''),
     (0xF2, js ''o''), (0xF3, js ''o''), (0xF4, js ''o''), (0xF5, js ''o''), (0xF6, js ''o''),
     (0xD9, js ''U''), (0xDA, js ''U''), (0xDB, js ''U''), (0xDC, js ''U''),
     (0xF9, js ''u''), (0xFA, js ''u''), (0xFB, js ''u''), (0xFC, js ''u''),
     (0xD1, js ''N''), (0xF1, js ''n''), (0xC7, js ''C''), (0xE7, js ''c'')]"

definition accentMap :: "jschar \<rightharpoonup> jsstring" where
  "accentMap = map_of accent_table"

text \<open>
  Each block of \<^verbatim>\<open>applyTextFixes\<close> is one step on the pair \<^verbatim>\<open>(fixedText, fixCounts)\<close>.
\<close>

type_synonym fix_state = "jsstring \<times> fix_counts"

definition fix_dashes :: "settings \<Rightarrow> fix_state \<Rightarrow> fix_state" where
  "fix_dashes st = (\<lambda>(fixedText, fixCounts).
     if fixEmDash st then
       (case match_all is_dash fixedText of
          Some matches \<Rightarrow>
            (replace_all is_dash (replacer st) fixedText, fixCounts\<lparr>emDash := length matches\<rparr>)
        | None \<Rightarrow> (fixedText, fixCounts))
     else (fixedText, fixCounts))"

definition fix_quotes :: "settings \<Rightarrow> fix_state \<Rightarrow> fix_state" where
  "fix_quotes st = (\<lambda>(fixedText, fixCounts).
     if fixCurlyQuotes st then
       (case match_all is_curly_quote fixedText of
          Some matches \<Rightarrow>
            (replace_all is_curly_single [0x27] (replace_all is_curly_double [0x22] fixedText),
             fixCounts\<lparr>curlyQuotes := length matches\<rparr>)
        | None \<Rightarrow> (fixedText, fixCounts))
     else (fixedText, fixCounts))"

definition fix_ellipsis :: "settings \<Rightarrow> fix_state \<Rightarrow> fix_state" where
  "fix_ellipsis st = (\<lambda>(fixedText, fixCounts).
     if fixEllipsis st then
       (case match_all is_ellipsis fixedText of
          Some matches \<Rightarrow>
            (replace_all is_ellipsis [0x2E, 0x2E, 0x2E] fixedText,
             fixCounts\<lparr>ellipsis := length matches\<rparr>)
        | None \<Rightarrow> (fixedText, fixCounts))
     else (fixedText, fixCounts))"

definition fix_invisible :: "settings \<Rightarrow> fix_state \<Rightarrow> fix_state" where
  "fix_invisible st = (\<lambda>(fixedText, fixCounts).
     if fixInvisibleChars st then
       (case match_all is_invisible fixedText of
          Some matches \<Rightarrow>
            (replace_all is_invisible [0x20] fixedText,
             fixCounts\<lparr>invisibleChars := length matches\<rparr>)
        | None \<Rightarrow> (fixedText, fixCounts))
     else (fixedText, fixCounts))"

text \<open>
  The callback of the accent block returns the table's entry and counts it, or returns the
  character; \<^verbatim>\<open>accentCount\<close> ends as the number of matched characters the table has.
\<close>

definition accent_callback :: "jschar \<Rightarrow> jsstring" where
  "accent_callback c = (case accentMap c of Some r \<Rightarrow> r | None \<Rightarrow> [c])"

definition fix_accents :: "settings \<Rightarrow> fix_state \<Rightarrow> fix_state" where
  "fix_accents st = (\<lambda>(fixedText, fixCounts).
     if fixAccents st then
       (let accentCount = length (filter (\<lambda>c. is_latin1_range c \<and> accentMap c \<noteq> None) fixedText)
        in (replace_all_with is_latin1_range accent_callback fixedText,
            fixCounts\<lparr>accents := accentCount\<rparr>))
     else (fixedText, fixCounts))"

definition fix_spaces :: "settings \<Rightarrow> fix_state \<Rightarrow> fix_state" where
  "fix_spaces st = (\<lambda>(fixedText, fixCounts).
     if fixSpaces st then
       (let beforeSpaces = match_runs is_space fixedText;
            afterSpaces = trim (replace_runs is_space [0x20] fixedText)
        in case beforeSpaces of
             Some ms \<Rightarrow>
               if afterSpaces \<noteq> trim fixedText
               then (afterSpaces, fixCounts\<lparr>spaces := length ms\<rparr>)
               else (fixedText, fixCounts)
           | None \<Rightarrow> (fixedText, fixCounts))
     else (fixedText, fixCounts))"

definition applyTextFixes :: "settings \<Rightarrow> jsstring \<Rightarrow> fix_state" where
  "applyTextFixes st text =
     fix_spaces st (fix_accents st (fix_invisible st (fix_ellipsis st (fix_quotes st
       (fix_dashes st (text, no_fixes))))))"

section \<open>The pre-check: \<^verbatim>\<open>needsProcessing\<close>\<close>

text \<open>\<^verbatim>\<open>!text\<close> holds for the empty string (a text node's \<^verbatim>\<open>textContent\<close> is always a string).\<close>

definition needsProcessing :: "settings \<Rightarrow> jsstring \<Rightarrow> bool" where
  "needsProcessing st text =
     (if text = [] then False
      else if fixEmDash st \<and> test_class is_dash text then True
      else if fixCurlyQuotes st \<and> test_class is_curly_quote text then True
      else if fixEllipsis st \<and> test_class is_ellipsis text then True
      else if fixInvisibleChars st \<and> test_class is_invisible text then True
      else if fixAccents st \<and> test_class is_latin1_range text then True
      else if fixSpaces st \<and> test_two is_space text then True
      else False)"

definition containsTargetText :: "settings \<Rightarrow> jsstring \<Rightarrow> bool" where
  "containsTargetText st text = needsProcessing st text"

section \<open>History entries and the synchronised storage\<close>

record history_entry =
  before :: jsstring
  after :: jsstring
  timestamp :: int
  url :: jsstring
  fixCounts :: fix_counts
  totalFixes :: nat

text \<open>
  The stored object \<^verbatim>\<open>fixStats\<close>. It is an object whose counters may be missing: the
  installer and the update migration of the background worker store \<^verbatim>\<open>fixStats: {}\<close>. A
  counter that is there holds a number, which may be \<^verbatim>\<open>NaN\<close> once
  \<^verbatim>\<open>updateStorageWithResults\<close> has added to a missing one.
\<close>

datatype jsnum = NaN | Num nat

record stats_object =
  stat_emDash :: "jsnum option"
  stat_curlyQuotes :: "jsnum option"
  stat_ellipsis :: "jsnum option"
  stat_invisibleChars :: "jsnum option"
  stat_accents :: "jsnum option"
  stat_spaces :: "jsnum option"

text \<open>
  The keys of \<^verbatim>\<open>chrome.storage.sync\<close> that the content script reads or writes. A key that was
  never set reads as \<^verbatim>\<open>undefined\<close>, here \<open>None\<close>.
\<close>

record sync_data =
  s_replacer :: "jsstring option"
  s_fixEmDash :: "bool option"
  s_fixCurlyQuotes :: "bool option"
  s_fixEllipsis :: "bool option"
  s_fixInvisibleChars :: "bool option"
  s_fixAccents :: "bool option"
  s_fixSpaces :: "bool option"
  s_history :: "history_entry list option"
  s_totalReplacements :: "nat option"
  s_fixStats :: "stats_object option"

text \<open>
  The callback of \<^verbatim>\<open>loadSettings\<close>. \<^verbatim>\<open>data.replacer || "-"\<close> takes the default for a missing
  key and also for the empty string, which is falsy; \<^verbatim>\<open>x !== false\<close> holds for a missing key.
\<close>

definition loadSettings :: "sync_data \<Rightarrow> settings" where
  "loadSettings data =
     \<lparr>replacer = (case s_replacer data of
                    Some r \<Rightarrow> if r = [] then js ''-'' else r
                  | None \<Rightarrow> js ''-''),
      fixEmDash = (s_fixEmDash data \<noteq> Some False),
      fixCurlyQuotes = (s_fixCurlyQuotes data \<noteq> Some False),
      fixEllipsis = (s_fixEllipsis data \<noteq> Some False),
      fixInvisibleChars = (s_fixInvisibleChars data \<noteq> Some False),
      fixAccents = (s_fixAccents data = Some True),
      fixSpaces = (s_fixSpaces data \<noteq> Some False)\<rparr>"

section \<open>The document\<close>

text \<open>
  A node of the document tree. A text node is known by its identity; its text lives in a
  store, since the scan rewrites it in place. An element carries its \<^verbatim>\<open>tagName\<close>, its
  \<^verbatim>\<open>isContentEditable\<close> property, whether it has the attribute \<^verbatim>\<open>contenteditable="true"\<close>,
  its child nodes, and the child nodes of its open shadow root when it has one.
\<close>

datatype dom =
    TextNode nat
  | OtherNode
  | Element string bool bool "dom list" "dom list option"

text \<open>
  The text nodes a \<^verbatim>\<open>TreeWalker\<close> with \<^verbatim>\<open>NodeFilter.SHOW_TEXT\<close> visits below a root, in document
  order (it does not enter shadow roots). Each comes with the verdict of the third test of
  \<^verbatim>\<open>acceptNode\<close>, which looks at the parent element only: \<open>excl\<close> is that verdict for the
  children of the current node, \<open>anc\<close> says whether \<^verbatim>\<open>closest('[contenteditable="true"]')\<close>
  finds an element from the current node upwards.
\<close>

fun text_nodes :: "bool \<Rightarrow> bool \<Rightarrow> dom \<Rightarrow> (nat \<times> bool) list" where
  "text_nodes excl anc (TextNode n) = [(n, excl)]"
| "text_nodes excl anc OtherNode = []"
| "text_nodes excl anc (Element tag editable attr kids shadow) =
     concat (map (text_nodes
       (tag = ''SCRIPT'' \<or> tag = ''STYLE'' \<or> tag = ''NOSCRIPT'' \<or> editable \<or> anc \<or> attr)
       (anc \<or> attr)) kids)"

text \<open>
  The walk of \<^verbatim>\<open>replaceInRoot(document.body, ...)\<close>, and the walk below a shadow root, whose
  children have no parent element (\<^verbatim>\<open>parentElement\<close> is \<^verbatim>\<open>null\<close>).
\<close>

definition body_walk :: "dom \<Rightarrow> (nat \<times> bool) list" where
  "body_walk b = text_nodes False False b"

definition shadow_walk :: "dom list \<Rightarrow> (nat \<times> bool) list" where
  "shadow_walk kids = concat (map (text_nodes False False) kids)"

text \<open>
  \<^verbatim>\<open>findShadowRoots\<close>: the shadow roots of the elements \<^verbatim>\<open>querySelectorAll('*')\<close> returns, in
  document order; the query does not enter shadow trees.
\<close>

fun findShadowRoots :: "dom \<Rightarrow> dom list list" where
  "findShadowRoots (TextNode n) = []"
| "findShadowRoots OtherNode = []"
| "findShadowRoots (Element tag editable attr kids shadow) =
     (case shadow of Some r \<Rightarrow> [r] | None \<Rightarrow> []) @ concat (map findShadowRoots kids)"

section \<open>The processor and its environment\<close>

text \<open>What the processor does to the outside: a write to the storage, a message sent.\<close>

datatype effect =
    StorageSet "history_entry list" nat stats_object
  | UpdateStats nat jsstring stats_object

text \<open>
  The fields of the \<^verbatim>\<open>AICleanerProcessor\<close> instance (\<^verbatim>\<open>processedNodes\<close> is a set of node
  identities), followed by what it acts on: the body of the document, the text of each text
  node, the storage, and the trace of effects.
\<close>

record world =
  isActive :: bool
  settings :: settings
  replacementCount :: nat
  processedNodes :: "nat set"
  lastScanTime :: int
  scanThrottle :: int
  body :: dom
  textContent :: "nat \<Rightarrow> jsstring"
  sync :: sync_data
  trace :: "effect list"

section \<open>Scanning: \<^verbatim>\<open>replaceInRoot\<close> and \<^verbatim>\<open>performScan\<close>\<close>

text \<open>The filter \<^verbatim>\<open>acceptNode\<close> of the walker, evaluated when the walker reaches the node.\<close>

definition acceptNode :: "world \<Rightarrow> nat \<Rightarrow> bool \<Rightarrow> bool" where
  "acceptNode w node excluded =
     (if node \<in> processedNodes w then False
      else if \<not> needsProcessing (settings w) (textContent w node) then False
      else if excluded then False
      else True)"

text \<open>\<^verbatim>\<open>Object.values(fixCounts).reduce((sum, count) => sum + count, 0)\<close>\<close>

definition sum_counts :: "fix_counts \<Rightarrow> nat" where
  "sum_counts c = emDash c + curlyQuotes c + ellipsis c + invisibleChars c + accents c + spaces c"

text \<open>
  The loop of \<^verbatim>\<open>replaceInRoot\<close> over the nodes of the walk, on the world, the array
  \<^verbatim>\<open>localHistory\<close> and \<^verbatim>\<open>totalReplacements\<close>. \<open>now\<close> and \<open>href\<close> are what \<^verbatim>\<open>Date.now()\<close> and
  \<^verbatim>\<open>window.location.href\<close> return. Assigning \<^verbatim>\<open>textContent\<close> of a text node does not throw,
  so the \<^verbatim>\<open>catch\<close> branch has no counterpart.
\<close>

fun replaceNodes ::
  "int \<Rightarrow> jsstring \<Rightarrow> (nat \<times> bool) list \<Rightarrow> world \<times> history_entry list \<times> nat
     \<Rightarrow> world \<times> history_entry list \<times> nat" where
  "replaceNodes now href [] acc = acc"
| "replaceNodes now href ((node, excluded) # rest) (w, localHistory, totalReplacements) =
     (if acceptNode w node excluded then
        (let original = textContent w node;
             (fixedText, counts) = applyTextFixes (settings w) original
         in if original \<noteq> fixedText then
              replaceNodes now href rest
                (w\<lparr>textContent := (textContent w)(node := fixedText),
                   processedNodes := insert node (processedNodes w)\<rparr>,
                 localHistory @
                   [\<lparr>before = original, after = fixedText, timestamp = now, url = href,
                     fixCounts = counts, totalFixes = sum_counts counts\<rparr>],
                 totalReplacements + sum_counts counts)
            else replaceNodes now href rest (w, localHistory, totalReplacements))
      else replaceNodes now href rest (w, localHistory, totalReplacements))"

text \<open>
  \<^verbatim>\<open>replaceInRoot(root, localHistory)\<close> for a root with the given walk: the world and the
  history after it, and the number it returns.
\<close>

definition replaceInRoot ::
  "int \<Rightarrow> jsstring \<Rightarrow> (nat \<times> bool) list \<Rightarrow> world \<times> history_entry list
     \<Rightarrow> world \<times> history_entry list \<times> nat" where
  "replaceInRoot now href nodes = (\<lambda>(w, localHistory). replaceNodes now href nodes (w, localHistory, 0))"

text \<open>
  The \<^verbatim>\<open>try\<close> block of \<^verbatim>\<open>performScan\<close> up to the statistics: the body first, then every shadow
  root, adding up \<^verbatim>\<open>replacementsThisScan\<close>.
\<close>

definition scan_roots ::
  "int \<Rightarrow> jsstring \<Rightarrow> dom list list \<Rightarrow> world \<times> history_entry list \<times> nat
     \<Rightarrow> world \<times> history_entry list \<times> nat" where
  "scan_roots now href roots acc =
     fold (\<lambda>shadowRoot (w, localHistory, replacementsThisScan).
             (case replaceInRoot now href (shadow_walk shadowRoot) (w, localHistory) of
                (w', localHistory', n) \<Rightarrow> (w', localHistory', replacementsThisScan + n)))
          roots acc"

definition scan_document :: "int \<Rightarrow> jsstring \<Rightarrow> world \<Rightarrow> world \<times> history_entry list \<times> nat" where
  "scan_document now href w =
     scan_roots now href (findShadowRoots (body w))
       (replaceInRoot now href (body_walk (body w)) (w, []))"

section \<open>Statistics: \<^verbatim>\<open>updateStorageWithResults\<close>\<close>

text \<open>\<^verbatim>\<open>array.slice(-k)\<close> and \<^verbatim>\<open>array.join(sep)\<close>\<close>

definition slice_last :: "nat \<Rightarrow> 'a list \<Rightarrow> 'a list" where
  "slice_last k xs = drop (length xs - k) xs"

fun join :: "jsstring \<Rightarrow> jsstring list \<Rightarrow> jsstring" where
  "join sep [] = []"
| "join sep [x] = x"
| "join sep (x # y # ys) = x @ sep @ join sep (y # ys)"

text \<open>
  \<^verbatim>\<open>stats.key += n\<close> on a counter of the stored object, for a count \<open>n\<close> of an entry: a missing
  counter reads as \<^verbatim>\<open>undefined\<close>, and \<^verbatim>\<open>undefined + n\<close> is \<^verbatim>\<open>NaN\<close>, as is \<^verbatim>\<open>NaN + n\<close>.
\<close>

fun js_plus :: "jsnum option \<Rightarrow> nat \<Rightarrow> jsnum option" where
  "js_plus None n = Some NaN"
| "js_plus (Some NaN) n = Some NaN"
| "js_plus (Some (Num a)) n = Some (Num (a + n))"

text \<open>The default of \<^verbatim>\<open>currentData.fixStats || {emDash: 0, ...}\<close>; any stored object is truthy.\<close>

definition zero_stats :: stats_object where
  "zero_stats =
     \<lparr>stat_emDash = Some (Num 0), stat_curlyQuotes = Some (Num 0), stat_ellipsis = Some (Num 0),
      stat_invisibleChars = Some (Num 0), stat_accents = Some (Num 0), stat_spaces = Some (Num 0)\<rparr>"

text \<open>The body of the \<^verbatim>\<open>forEach\<close> over the local entries.\<close>

definition add_counts :: "stats_object \<Rightarrow> history_entry \<Rightarrow> stats_object" where
  "add_counts stats entry =
     \<lparr>stat_emDash = js_plus (stat_emDash stats) (emDash (fixCounts entry)),
      stat_curlyQuotes = js_plus (stat_curlyQuotes stats) (curlyQuotes (fixCounts entry)),
      stat_ellipsis = js_plus (stat_ellipsis stats) (ellipsis (fixCounts entry)),
      stat_invisibleChars = js_plus (stat_invisibleChars stats) (invisibleChars (fixCounts entry)),
      stat_accents = js_plus (stat_accents stats) (accents (fixCounts entry)),
      stat_spaces = js_plus (stat_spaces stats) (spaces (fixCounts entry))\<rparr>"

text \<open>
  The read, the merge, the write and the message of \<^verbatim>\<open>updateStorageWithResults\<close>, taken as one
  step (the processor is the only writer here, and the storage calls succeed). The storage is
  taken to hold the object that was written.
\<close>

definition updateStorageWithResults :: "history_entry list \<Rightarrow> nat \<Rightarrow> world \<Rightarrow> world" where
  "updateStorageWithResults localHistory count w =
     (let currentData = sync w;
          newHistory = (case s_history currentData of Some h \<Rightarrow> h | None \<Rightarrow> []) @ localHistory;
          newTotal = (case s_totalReplacements currentData of Some t \<Rightarrow> t | None \<Rightarrow> 0) + count;
          currentFixStats =
            foldl add_counts (case s_fixStats currentData of Some f \<Rightarrow> f | None \<Rightarrow> zero_stats)
              localHistory;
          trimmedHistory = slice_last 100 newHistory;
          processedText = join [0x0A] (map after localHistory)
      in w\<lparr>sync := currentData\<lparr>s_history := Some trimmedHistory,
                                s_totalReplacements := Some newTotal,
                                s_fixStats := Some currentFixStats\<rparr>,
            trace := trace w @ [StorageSet trimmedHistory newTotal currentFixStats,
                                UpdateStats count processedText currentFixStats]\<rparr>)"

definition performScan :: "int \<Rightarrow> jsstring \<Rightarrow> world \<Rightarrow> world" where
  "performScan now href w =
     (if \<not> isActive w then w
      else (case scan_document now href w of
              (w', localHistory, replacementsThisScan) \<Rightarrow>
                if replacementsThisScan > 0 then
                  updateStorageWithResults localHistory replacementsThisScan
                    (w'\<lparr>replacementCount := replacementCount w' + replacementsThisScan\<rparr>)
                else w'))"

definition performImmediateScan :: "int \<Rightarrow> jsstring \<Rightarrow> world \<Rightarrow> world" where
  "performImmediateScan now href w = performScan now href w"

section \<open>Messages from the popup\<close>

datatype message = Ping | TestReplace | SettingsUpdated | OtherAction string

datatype response =
    PingResponse bool nat
  | TestResponse nat
  | SettingsResponse
  | UnknownAction string

text \<open>
  The listener of \<^verbatim>\<open>setupMessageListener\<close>. For \<^verbatim>\<open>settingsUpdated\<close> it loads the settings and,
  when they have arrived, scans.
\<close>

fun onMessage :: "int \<Rightarrow> jsstring \<Rightarrow> message \<Rightarrow> world \<Rightarrow> world \<times> response" where
  "onMessage now href Ping w = (w, PingResponse (isActive w) (replacementCount w))"
| "onMessage now href TestReplace w =
     (let w' = performImmediateScan now href w in (w', TestResponse (replacementCount w')))"
| "onMessage now href SettingsUpdated w =
     (let w' = w\<lparr>settings := loadSettings (sync w)\<rparr>
      in (performImmediateScan now href w', SettingsResponse))"
| "onMessage now href (OtherAction a) w = (w, UnknownAction a)"

section \<open>The change monitor: \<^verbatim>\<open>handleMutations\<close>\<close>

text \<open>
  A mutation record: a \<^verbatim>\<open>childList\<close> record with its added nodes, a \<^verbatim>\<open>characterData\<close> record
  with the identity of its target, or a record of another type.
\<close>

datatype mutation = ChildList "dom list" | CharacterData nat | OtherMutation

definition containsTargetTextInSubtree :: "world \<Rightarrow> dom \<Rightarrow> bool" where
  "containsTargetTextInSubtree w element =
     list_ex (\<lambda>(n, excl). containsTargetText (settings w) (textContent w n))
       (text_nodes False False element)"

text \<open>What one added node contributes to \<^verbatim>\<open>shouldScan\<close>.\<close>

fun added_node_needs_scan :: "world \<Rightarrow> dom \<Rightarrow> bool" where
  "added_node_needs_scan w (TextNode n) = containsTargetText (settings w) (textContent w n)"
| "added_node_needs_scan w OtherNode = False"
| "added_node_needs_scan w (Element tag editable attr kids shadow) =
     containsTargetTextInSubtree w (Element tag editable attr kids shadow)"

fun mutation_needs_scan :: "world \<Rightarrow> mutation \<Rightarrow> bool" where
  "mutation_needs_scan w (ChildList addedNodes) = list_ex (added_node_needs_scan w) addedNodes"
| "mutation_needs_scan w (CharacterData target) =
     containsTargetText (settings w) (textContent w target)"
| "mutation_needs_scan w OtherMutation = False"

text \<open>
  The loops of \<^verbatim>\<open>handleMutations\<close> only read, and stop at the first record that sets
  \<^verbatim>\<open>shouldScan\<close>: \<^verbatim>\<open>shouldScan\<close> ends true when some record of the batch needs a scan.
\<close>

definition handleMutations :: "int \<Rightarrow> jsstring \<Rightarrow> mutation list \<Rightarrow> world \<Rightarrow> world" where
  "handleMutations now href mutations w =
     (if now - lastScanTime w < scanThrottle w then w
      else (let w' = w\<lparr>lastScanTime := now\<rparr>;
                shouldScan = list_ex (mutation_needs_scan w') mutations
            in if shouldScan then performScan now href w' else w'))"

section \<open>Notions used in the proofs\<close>

text \<open>A template whose substitution can hold no dash: no dash written in it, and none of the
  patterns that copy a part of the subject string.\<close>

fun dash_free_template :: "jsstring \<Rightarrow> bool" where
  "dash_free_template [] = True"
| "dash_free_template [c] = (\<not> is_dash c)"
| "dash_free_template (c # d # rest) =
     (if c = 0x24 \<and> d = 0x24 then dash_free_template rest
      else if c = 0x24 \<and> (d = 0x26 \<or> d = 0x60 \<or> d = 0x27) then False
      else \<not> is_dash c \<and> dash_free_template (d # rest))"

text \<open>A string without any code unit of a class.\<close>

definition free_of :: "(jschar \<Rightarrow> bool) \<Rightarrow> jsstring \<Rightarrow> bool" where
  "free_of cls s = (\<forall>c \<in> set s. \<not> cls c)"

text \<open>The code units the accent block changes: those of its class that the table has.\<close>

definition is_accented :: "jschar \<Rightarrow> bool" where
  "is_accented c = (is_latin1_range c \<and> accentMap c \<noteq> None)"

text \<open>The text each block of \<^verbatim>\<open>applyTextFixes\<close> leaves, as a function of the text it gets.\<close>

definition dash_text :: "settings \<Rightarrow> jsstring \<Rightarrow> jsstring" where
  "dash_text st s = (if fixEmDash st then replace_all is_dash (replacer st) s else s)"

definition quote_text :: "settings \<Rightarrow> jsstring \<Rightarrow> jsstring" where
  "quote_text st s =
     (if fixCurlyQuotes st
      then replace_all_with is_curly_single (\<lambda>c. [0x27]) (replace_all_with is_curly_double (\<lambda>c. [0x22]) s)
      else s)"

definition ellipsis_text :: "settings \<Rightarrow> jsstring \<Rightarrow> jsstring" where
  "ellipsis_text st s =
     (if fixEllipsis st then replace_all_with is_ellipsis (\<lambda>c. [0x2E, 0x2E, 0x2E]) s else s)"

definition invisible_text :: "settings \<Rightarrow> jsstring \<Rightarrow> jsstring" where
  "invisible_text st s = (if fixInvisibleChars st then replace_all_with is_invisible (\<lambda>c. [0x20]) s else s)"

definition accent_text :: "settings \<Rightarrow> jsstring \<Rightarrow> jsstring" where
  "accent_text st s = (if fixAccents st then replace_all_with is_latin1_range accent_callback s else s)"

definition space_text :: "settings \<Rightarrow> jsstring \<Rightarrow> jsstring" where
  "space_text st s =
     (if fixSpaces st \<and> trim (replace_runs is_space [0x20] s) \<noteq> trim s
      then trim (replace_runs is_space [0x20] s) else s)"

text \<open>A text in which no enabled block up to the accents finds anything to change.\<close>

definition clean :: "settings \<Rightarrow> jsstring \<Rightarrow> bool" where
  "clean st s =
     ((fixEmDash st \<longrightarrow> free_of is_dash s) \<and>
      (fixCurlyQuotes st \<longrightarrow> free_of is_curly_quote s) \<and>
      (fixEllipsis st \<longrightarrow> free_of is_ellipsis s) \<and>
      (fixInvisibleChars st \<longrightarrow> free_of is_invisible s) \<and>
      (fixAccents st \<longrightarrow> free_of is_accented s))"

text \<open>The letters the accent table maps to.\<close>

definition plain_letters :: "jschar set" where
  "plain_letters = {0x41, 0x61, 0x45, 0x65, 0x49, 0x69, 0x4F, 0x6F, 0x55, 0x75, 0x4E, 0x6E, 0x43, 0x63}"

text \<open>White space normalised: only blanks, never two in a row.\<close>

definition single_spaced :: "jsstring \<Rightarrow> bool" where
  "single_spaced s = ((\<forall>c \<in> set s. is_space c \<longrightarrow> c = 0x20) \<and> \<not> test_two is_space s)"

text \<open>The blocks before the space normalisation, composed.\<close>

definition first_five :: "settings \<Rightarrow> jsstring \<Rightarrow> jsstring" where
  "first_five st s =
     accent_text st (invisible_text st (ellipsis_text st (quote_text st (dash_text st s))))"

text \<open>
  The nodes one scan of the document walks: the body's, then each shadow root's.
\<close>

definition all_walk :: "dom \<Rightarrow> (nat \<times> bool) list" where
  "all_walk b = body_walk b @ concat (map shadow_walk (findShadowRoots b))"

text \<open>
  What the loop of \<^verbatim>\<open>replaceInRoot\<close> does at one node: the world after it, the entries it pushes
  (none or one) and what it adds to \<^verbatim>\<open>totalReplacements\<close>.
\<close>

definition visit :: "int \<Rightarrow> jsstring \<Rightarrow> nat \<times> bool \<Rightarrow> world \<Rightarrow> world \<times> history_entry list \<times> nat" where
  "visit now href p w =
     (case p of (node, excluded) \<Rightarrow>
        if acceptNode w node excluded \<and>
           fst (applyTextFixes (settings w) (textContent w node)) \<noteq> textContent w node
        then (w\<lparr>textContent := (textContent w)
                   (node := fst (applyTextFixes (settings w) (textContent w node))),
                processedNodes := insert node (processedNodes w)\<rparr>,
              [\<lparr>before = textContent w node,
                after = fst (applyTextFixes (settings w) (textContent w node)),
                timestamp = now, url = href,
                fixCounts = snd (applyTextFixes (settings w) (textContent w node)),
                totalFixes = sum_counts (snd (applyTextFixes (settings w) (textContent w node)))\<rparr>],
              sum_counts (snd (applyTextFixes (settings w) (textContent w node))))
        else (w, [], 0))"

text \<open>
  A node at which the loop does nothing: the filter rejects it, or the transformation returns
  its text as it is.
\<close>

definition settled :: "world \<Rightarrow> nat \<times> bool \<Rightarrow> bool" where
  "settled w p =
     (case p of (node, excluded) \<Rightarrow>
        \<not> acceptNode w node excluded \<or>
        fst (applyTextFixes (settings w) (textContent w node)) = textContent w node)"

text \<open>
  The stored history, total and category counters as \<^verbatim>\<open>updateStorageWithResults\<close> reads them
  (a missing key reads as empty or zero), and a sequence of merges.
\<close>

definition stored_history :: "world \<Rightarrow> history_entry list" where
  "stored_history w = (case s_history (sync w) of Some h \<Rightarrow> h | None \<Rightarrow> [])"

definition stored_total :: "world \<Rightarrow> nat" where
  "stored_total w = (case s_totalReplacements (sync w) of Some t \<Rightarrow> t | None \<Rightarrow> 0)"

definition stored_stats :: "world \<Rightarrow> stats_object" where
  "stored_stats w = (case s_fixStats (sync w) of Some f \<Rightarrow> f | None \<Rightarrow> zero_stats)"

text \<open>
  A statistics object that has all six counters as numbers, and the counters after the counts
  of a list of entries have been added category by category.
\<close>

definition numbers :: "fix_counts \<Rightarrow> stats_object" where
  "numbers c =
     \<lparr>stat_emDash = Some (Num (emDash c)), stat_curlyQuotes = Some (Num (curlyQuotes c)),
      stat_ellipsis = Some (Num (ellipsis c)), stat_invisibleChars = Some (Num (invisibleChars c)),
      stat_accents = Some (Num (accents c)), stat_spaces = Some (Num (spaces c))\<rparr>"

definition count_sums :: "fix_counts \<Rightarrow> history_entry list \<Rightarrow> fix_counts" where
  "count_sums c h =
     \<lparr>emDash = emDash c + sum_list (map (\<lambda>e. emDash (fixCounts e)) h),
      curlyQuotes = curlyQuotes c + sum_list (map (\<lambda>e. curlyQuotes (fixCounts e)) h),
      ellipsis = ellipsis c + sum_list (map (\<lambda>e. ellipsis (fixCounts e)) h),
      invisibleChars = invisibleChars c + sum_list (map (\<lambda>e. invisibleChars (fixCounts e)) h),
      accents = accents c + sum_list (map (\<lambda>e. accents (fixCounts e)) h),
      spaces = spaces c + sum_list (map (\<lambda>e. spaces (fixCounts e)) h)\<rparr>"

definition merge_all :: "(history_entry list \<times> nat) list \<Rightarrow> world \<Rightarrow> world" where
  "merge_all ms w = fold (\<lambda>(localHistory, count). updateStorageWithResults localHistory count) ms w"

section \<open>Example inputs\<close>

text \<open>A storage in which no key was ever set, and the settings loaded from it.\<close>

definition empty_storage :: sync_data where
  "empty_storage =
     \<lparr>s_replacer = None, s_fixEmDash = None, s_fixCurlyQuotes = None, s_fixEllipsis = None,
      s_fixInvisibleChars = None, s_fixAccents = None, s_fixSpaces = None, s_history = None,
      s_totalReplacements = None, s_fixStats = None\<rparr>"

definition default_settings :: settings where
  "default_settings = loadSettings empty_storage"

text \<open>The second end-to-end example: a quoted word, an ellipsis and a run of three blanks.\<close>

definition example2_input :: jsstring where
  "example2_input =
     [0x201C] @ js ''Quoted'' @ [0x201D] @ js '' text'' @ [0x2026] @ js ''   here''"

definition example2_output :: jsstring where
  "example2_output = [0x22] @ js ''Quoted'' @ [0x22] @ js '' text... here''"

definition example2_settings :: settings where
  "example2_settings =
     \<lparr>replacer = js ''-'', fixEmDash = False, fixCurlyQuotes = True, fixEllipsis = True,
      fixInvisibleChars = False, fixAccents = False, fixSpaces = True\<rparr>"

text \<open>Settings whose replacement string is two en dashes.\<close>

definition double_dash_settings :: settings where
  "double_dash_settings = loadSettings (empty_storage\<lparr>s_replacer := Some [0x2013, 0x2013]\<rparr>)"


text \<open>The storage as \<^verbatim>\<open>setDefaultSettings\<close> of the background worker leaves it on installation.\<close>

definition installed_storage :: sync_data where
  "installed_storage =
     \<lparr>s_replacer = Some (js ''-''), s_fixEmDash = Some True, s_fixCurlyQuotes = Some True,
      s_fixEllipsis = Some True, s_fixInvisibleChars = Some True, s_fixAccents = Some False,
      s_fixSpaces = Some True, s_history = Some [], s_totalReplacements = Some 0,
      s_fixStats = Some \<lparr>stat_emDash = None, stat_curlyQuotes = None, stat_ellipsis = None,
                         stat_invisibleChars = None, stat_accents = None, stat_spaces = None\<rparr>\<rparr>"

text \<open>
  A small page: a paragraph with an em dash, a script with the same text, a plain text, and
  an ellipsis inside a shadow root. The processor is active, with the default settings.
\<close>

definition text_dash :: jsstring where
  "text_dash = js ''a'' @ [0x2014] @ js ''b''"

definition example_href :: jsstring where
  "example_href = js ''https://chatgpt.com/''"

definition example_body :: dom where
  "example_body =
     Element ''BODY'' False False
       [Element ''P'' False False [TextNode 0] None,
        Element ''SCRIPT'' False False [TextNode 1] None,
        Element ''DIV'' False False [TextNode 2] (Some [TextNode 3])]
       None"

definition example_text :: "nat \<Rightarrow> jsstring" where
  "example_text = (\<lambda>n. [])(0 := text_dash, 1 := text_dash, 2 := js ''plain'', 3 := [0x2026])"

definition example_world :: world where
  "example_world =
     \<lparr>isActive = True, settings = default_settings, replacementCount = 0, processedNodes = {},
      lastScanTime = 0, scanThrottle = 100, body = example_body, textContent = example_text,
      sync = empty_storage, trace = []\<rparr>"

text \<open>
  The entries the first scan of that page pushes, and the world after it.
\<close>

definition entry_dash :: history_entry where
  "entry_dash =
     \<lparr>before = text_dash, after = js ''a-b'', timestamp = 1000, url = example_href,
      fixCounts = no_fixes\<lparr>emDash := 1\<rparr>, totalFixes = 1\<rparr>"

definition entry_ellipsis :: history_entry where
  "entry_ellipsis =
     \<lparr>before = [0x2026], after = js ''...'', timestamp = 1000, url = example_href,
      fixCounts = no_fixes\<lparr>ellipsis := 1\<rparr>, totalFixes = 1\<rparr>"

definition example_scanned :: world where
  "example_scanned =
     example_world\<lparr>textContent := example_text(0 := js ''a-b'', 3 := js ''...''),
                   processedNodes := {3, 0}\<rparr>"

text \<open>
  The same page with plain text only, and two mutation batches: a change of the plain text
  node, and a change of the node with the em dash.
\<close>

definition quiet_world :: world where
  "quiet_world = example_world\<lparr>textContent := (\<lambda>n. js ''plain'')\<rparr>"

definition batch_plain :: "mutation list" where
  "batch_plain = [CharacterData 2]"

definition batch_dash :: "mutation list" where
  "batch_dash = [CharacterData 0]"

text \<open>
  A page with two text nodes, one holding an em dash and an ellipsis, the other an ellipsis
  only, scanned with the ellipsis category disabled; then the popup enables the category in
  the storage and sends \<^verbatim>\<open>settingsUpdated\<close>.
\<close>

definition text_dash_ellipsis :: jsstring where
  "text_dash_ellipsis = js ''a'' @ [0x2014] @ js ''b'' @ [0x2026]"

definition reload_storage :: sync_data where
  "reload_storage = empty_storage\<lparr>s_fixEllipsis := Some False\<rparr>"

definition reload_text :: "nat \<Rightarrow> jsstring" where
  "reload_text = (\<lambda>n. [])(0 := text_dash_ellipsis, 1 := [0x2026])"

definition reload_world :: world where
  "reload_world =
     \<lparr>isActive = True, settings = loadSettings reload_storage, replacementCount = 0,
      processedNodes = {}, lastScanTime = 0, scanThrottle = 100,
      body = Element ''BODY'' False False [TextNode 0, TextNode 1] None,
      textContent = reload_text, sync = reload_storage, trace = []\<rparr>"

definition reload_after_scan :: world where
  "reload_after_scan = performScan 1000 example_href reload_world"

definition reload_toggled :: world where
  "reload_toggled = reload_after_scan\<lparr>sync := (sync reload_after_scan)\<lparr>s_fixEllipsis := Some True\<rparr>\<rparr>"

definition reload_final :: world where
  "reload_final = fst (onMessage 2000 example_href SettingsUpdated reload_toggled)"

text \<open>The example page with the storage of a fresh installation.\<close>

definition installed_world :: world where
  "installed_world = example_world\<lparr>sync := installed_storage\<rparr>"

section \<open>The transformations\<close>

lemma free_of_simps [simp]:
  "free_of cls []" "free_of cls (c # s) = (\<not> cls c \<and> free_of cls s)"
  "free_of cls (s @ t) = (free_of cls s \<and> free_of cls t)"
  by (auto simp: free_of_def)

lemma get_substitution_dash_free:
  "dash_free_template t \<Longrightarrow> \<not> is_dash 0x24 \<Longrightarrow> free_of is_dash (get_substitution m pre post t)"
  by (induction m pre post t rule: get_substitution.induct) (auto split: if_splits)

lemma not_dash_dollar: "\<not> is_dash 0x24" by (simp add: is_dash_def)

lemma replace_from_dash_free:
  "dash_free_template t \<Longrightarrow> free_of is_dash (replace_from is_dash t pre s)"
  by (induction s arbitrary: pre) (auto simp: get_substitution_dash_free not_dash_dollar)

lemma replace_from_no_match:
  "free_of cls s \<Longrightarrow> replace_from cls t pre s = s"
  by (induction s arbitrary: pre) auto

lemma replace_from_const:
  "(\<And>m pre post. get_substitution m pre post t = t) \<Longrightarrow>
     replace_from cls t pre s = replace_all_with cls (\<lambda>c. t) s"
  by (induction s arbitrary: pre) (auto simp: replace_all_with_def)

lemma replace_all_with_identity:
  "(\<And>c. c \<in> set s \<Longrightarrow> cls c \<Longrightarrow> f c = [c]) \<Longrightarrow> replace_all_with cls f s = s"
  by (induction s) (auto simp: replace_all_with_def)

lemma replace_all_with_free:
  "(\<And>c. c \<in> set s \<Longrightarrow> cls c \<Longrightarrow> free_of Q (f c)) \<Longrightarrow>
   (\<And>c. c \<in> set s \<Longrightarrow> \<not> cls c \<Longrightarrow> \<not> Q c) \<Longrightarrow> free_of Q (replace_all_with cls f s)"
  by (induction s) (auto simp: replace_all_with_def)

lemma match_all_None: "match_all cls s = None \<longleftrightarrow> free_of cls s"
  by (auto simp: match_all_def free_of_def filter_empty_conv)

lemma replace_all_const:
  "(\<And>m pre post. get_substitution m pre post t = t) \<Longrightarrow>
     replace_all cls t s = replace_all_with cls (\<lambda>c. t) s"
  by (simp add: replace_all_def replace_from_const)

lemma replace_all_with_no_match: "free_of cls s \<Longrightarrow> replace_all_with cls f s = s"
  by (rule replace_all_with_identity) (simp add: free_of_def)

lemma fst_fix_dashes: "fst (fix_dashes st (s, c)) = dash_text st s"
  by (auto simp: fix_dashes_def dash_text_def match_all_None replace_all_def
      replace_from_no_match split: option.splits)

lemma free_of_curly:
  "free_of is_curly_quote s \<longleftrightarrow> free_of is_curly_double s \<and> free_of is_curly_single s"
  by (auto simp: free_of_def is_curly_quote_def is_curly_double_def is_curly_single_def)

lemma fst_fix_quotes: "fst (fix_quotes st (s, c)) = quote_text st s"
  by (auto simp: fix_quotes_def quote_text_def match_all_None replace_all_const
      replace_all_with_no_match free_of_curly split: option.splits)

lemma fst_fix_ellipsis: "fst (fix_ellipsis st (s, c)) = ellipsis_text st s"
  by (auto simp: fix_ellipsis_def ellipsis_text_def match_all_None replace_all_const
      replace_all_with_no_match split: option.splits)

lemma fst_fix_invisible: "fst (fix_invisible st (s, c)) = invisible_text st s"
  by (auto simp: fix_invisible_def invisible_text_def match_all_None replace_all_const
      replace_all_with_no_match split: option.splits)

lemma fst_fix_accents: "fst (fix_accents st (s, c)) = accent_text st s"
  by (simp add: fix_accents_def accent_text_def)

lemma runs_Nil: "runs cls s = [] \<longleftrightarrow> free_of cls s"
  by (induction cls s rule: runs.induct) auto

lemma replace_runs_no_match: "free_of cls s \<Longrightarrow> replace_runs cls r s = s"
  by (induction s) auto

lemma fst_fix_spaces: "fst (fix_spaces st (s, c)) = space_text st s"
  by (auto simp: fix_spaces_def space_text_def match_runs_def runs_Nil Let_def
      replace_runs_no_match split: option.splits)

lemma fst_applyTextFixes:
  "fst (applyTextFixes st s) =
     space_text st (accent_text st (invisible_text st (ellipsis_text st (quote_text st
       (dash_text st s)))))"
proof -
  have step: "\<And>f g p. (\<And>s c. fst (f (s, c)) = g s) \<Longrightarrow> fst (f p) = g (fst p)"
    by (metis prod.collapse)
  show ?thesis
    unfolding applyTextFixes_def
    by (simp add: step [of "fix_spaces st" "space_text st", OF fst_fix_spaces]
        step [of "fix_accents st" "accent_text st", OF fst_fix_accents]
        step [of "fix_invisible st" "invisible_text st", OF fst_fix_invisible]
        step [of "fix_ellipsis st" "ellipsis_text st", OF fst_fix_ellipsis]
        step [of "fix_quotes st" "quote_text st", OF fst_fix_quotes]
        step [of "fix_dashes st" "dash_text st", OF fst_fix_dashes])
qed

lemmas class_defs = is_dash_def is_curly_quote_def is_curly_single_def is_curly_double_def
  is_ellipsis_def is_invisible_def is_latin1_range_def is_space_def

lemma accentMap_values:
  assumes "accentMap c = Some r"
  shows "\<exists>a \<in> plain_letters. r = [a]"
proof -
  have "\<forall>(k, v) \<in> set accent_table. \<exists>a \<in> plain_letters. v = [a]"
    by (simp add: accent_table_def js_def plain_letters_def)
  moreover from assms have "(c, r) \<in> set accent_table"
    by (simp add: accentMap_def map_of_SomeD)
  ultimately show ?thesis by blast
qed

lemma accent_callback_free:
  assumes "\<not> Q c" and "\<And>a. a \<in> plain_letters \<Longrightarrow> \<not> Q a"
  shows "free_of Q (accent_callback c)"
proof (cases "accentMap c")
  case None
  then show ?thesis using assms(1) by (simp add: accent_callback_def)
next
  case (Some r)
  from accentMap_values [OF Some] obtain a where "a \<in> plain_letters" "r = [a]" by blast
  then show ?thesis using Some assms(2) by (simp add: accent_callback_def)
qed

lemma dash_text_free:
  "dash_free_template (replacer st) \<Longrightarrow> fixEmDash st \<Longrightarrow> free_of is_dash (dash_text st s)"
  by (simp add: dash_text_def replace_all_def replace_from_dash_free)

lemma replace_all_with_preserves:
  "free_of Q s \<Longrightarrow> (\<And>c. c \<in> set s \<Longrightarrow> cls c \<Longrightarrow> free_of Q (f c)) \<Longrightarrow> free_of Q (replace_all_with cls f s)"
  by (rule replace_all_with_free) (auto simp: free_of_def)

lemma replace_all_with_establishes:
  "(\<And>c. cls c \<Longrightarrow> free_of cls (f c)) \<Longrightarrow> free_of cls (replace_all_with cls f s)"
  by (rule replace_all_with_free) auto

lemma quote_text_preserves:
  "free_of Q s \<Longrightarrow> \<not> Q 0x22 \<Longrightarrow> \<not> Q 0x27 \<Longrightarrow> free_of Q (quote_text st s)"
  by (simp add: quote_text_def replace_all_with_preserves)

lemma ellipsis_text_preserves:
  "free_of Q s \<Longrightarrow> \<not> Q 0x2E \<Longrightarrow> free_of Q (ellipsis_text st s)"
  by (simp add: ellipsis_text_def replace_all_with_preserves)

lemma invisible_text_preserves:
  "free_of Q s \<Longrightarrow> \<not> Q 0x20 \<Longrightarrow> free_of Q (invisible_text st s)"
  by (simp add: invisible_text_def replace_all_with_preserves)

lemma accent_text_preserves:
  assumes "free_of Q s" and "\<And>a. a \<in> plain_letters \<Longrightarrow> \<not> Q a"
  shows "free_of Q (accent_text st s)"
proof (cases "fixAccents st")
  case True
  have "free_of Q (accent_callback c)" if "c \<in> set s" for c
  proof (rule accent_callback_free)
    show "\<not> Q c" using that assms(1) by (simp add: free_of_def)
  qed (rule assms(2))
  then show ?thesis using assms(1) True by (simp add: accent_text_def replace_all_with_preserves)
qed (simp add: accent_text_def assms(1))

lemma quote_text_establishes: "fixCurlyQuotes st \<Longrightarrow> free_of is_curly_quote (quote_text st s)"
  unfolding quote_text_def free_of_curly
  by (auto intro!: replace_all_with_preserves replace_all_with_establishes simp: class_defs)

lemma ellipsis_text_establishes: "fixEllipsis st \<Longrightarrow> free_of is_ellipsis (ellipsis_text st s)"
  by (auto simp: ellipsis_text_def class_defs intro!: replace_all_with_establishes)

lemma invisible_text_establishes:
  "fixInvisibleChars st \<Longrightarrow> free_of is_invisible (invisible_text st s)"
  by (auto simp: invisible_text_def class_defs intro!: replace_all_with_establishes)

lemma plain_letters_not_latin1: "a \<in> plain_letters \<Longrightarrow> \<not> is_latin1_range a"
  by (auto simp: plain_letters_def is_latin1_range_def)

lemma accent_text_establishes: "fixAccents st \<Longrightarrow> free_of is_accented (accent_text st s)"
proof -
  have "free_of is_accented (accent_callback c)" for c
  proof (cases "accentMap c")
    case None
    then show ?thesis by (simp add: accent_callback_def is_accented_def)
  next
    case (Some r)
    from accentMap_values [OF Some] obtain a where "a \<in> plain_letters" "r = [a]" by blast
    then show ?thesis using Some
      by (simp add: accent_callback_def is_accented_def plain_letters_not_latin1)
  qed
  then have "free_of is_accented (replace_all_with is_latin1_range accent_callback s)"
    by (intro replace_all_with_free) (auto simp: is_accented_def)
  then show "fixAccents st \<Longrightarrow> free_of is_accented (accent_text st s)"
    by (simp add: accent_text_def)
qed

lemma test_two_Cons:
  "test_two cls (c # s) = ((cls c \<and> s \<noteq> [] \<and> cls (hd s)) \<or> test_two cls s)"
  by (cases s) auto

lemma test_two_snoc:
  "test_two cls (s @ [c]) = (test_two cls s \<or> (s \<noteq> [] \<and> cls (last s) \<and> cls c))"
  by (induction s) (auto simp: test_two_Cons hd_append)

lemma test_two_rev: "test_two cls (rev s) = test_two cls s"
  by (induction s) (auto simp: test_two_Cons test_two_snoc last_rev)

lemma test_two_dropWhile: "\<not> test_two cls s \<Longrightarrow> \<not> test_two cls (dropWhile P s)"
  by (induction s) (auto simp: test_two_Cons)

lemma set_trim: "set (trim s) \<subseteq> set s"
proof
  fix x
  assume "x \<in> set (trim s)"
  then have "x \<in> set (dropWhile is_space (rev (dropWhile is_space s)))"
    by (simp add: trim_def)
  then have "x \<in> set (rev (dropWhile is_space s))"
    by (rule set_dropWhileD)
  then have "x \<in> set (dropWhile is_space s)" by simp
  then show "x \<in> set s" by (rule set_dropWhileD)
qed

lemma single_spaced_trim: "single_spaced s \<Longrightarrow> single_spaced (trim s)"
  using set_trim [of s]
  by (auto simp: single_spaced_def) (simp add: trim_def test_two_rev test_two_dropWhile)

lemma set_replace_runs: "set (replace_runs cls r s) \<subseteq> set r \<union> {c \<in> set s. \<not> cls c}"
proof (induction cls r s rule: replace_runs.induct)
  case (2 cls r c cs)
  show ?case
  proof (cases "cls c")
    case True
    with 2 show ?thesis using set_dropWhileD [of _ cls cs] by auto
  next
    case False
    with 2 show ?thesis by auto
  qed
qed simp

lemma hd_replace_runs:
  "s \<noteq> [] \<Longrightarrow> \<not> cls (hd s) \<Longrightarrow> replace_runs cls r s \<noteq> [] \<and> hd (replace_runs cls r s) = hd s"
  by (cases s) auto

lemma test_two_replace_runs:
  "cls a \<Longrightarrow> \<not> test_two cls (replace_runs cls [a] s)"
proof (induction cls "[a]" s rule: replace_runs.induct)
  case (2 cls c cs)
  show ?case
  proof (cases "cls c")
    case True
    have "replace_runs cls [a] (dropWhile cls cs) = [] \<or>
        \<not> cls (hd (replace_runs cls [a] (dropWhile cls cs)))"
    proof (cases "dropWhile cls cs = []")
      case True
      show ?thesis unfolding True by simp
    next
      case False
      then have "\<not> cls (hd (dropWhile cls cs))" by (rule hd_dropWhile)
      with False hd_replace_runs [of "dropWhile cls cs" cls "[a]"] show ?thesis by simp
    qed
    with 2 True show ?thesis by (auto simp: test_two_Cons)
  next
    case False
    with 2 show ?thesis by (auto simp: test_two_Cons)
  qed
qed simp

lemma is_space_blank: "is_space 0x20"
  by (simp add: is_space_def)

lemma single_spaced_replace_runs: "single_spaced (replace_runs is_space [0x20] s)"
  using set_replace_runs [of is_space "[0x20]" s] test_two_replace_runs [of is_space "0x20" s] is_space_blank
  by (auto simp: single_spaced_def)

lemma replace_runs_single_spaced:
  "single_spaced s \<Longrightarrow> replace_runs is_space [0x20] s = s"
proof (induction s)
  case (Cons c cs)
  then have ih: "replace_runs is_space [0x20] cs = cs"
    by (auto simp: single_spaced_def test_two_Cons)
  show ?case
  proof (cases "is_space c")
    case True
    with Cons.prems have c: "c = 0x20" and "cs = [] \<or> \<not> is_space (hd cs)"
      by (auto simp: single_spaced_def test_two_Cons)
    then have "dropWhile is_space cs = cs" by (cases cs) auto
    with True c ih show ?thesis by simp
  next
    case False
    with ih show ?thesis by simp
  qed
qed simp

lemma space_text_idem: "space_text st (space_text st s) = space_text st s"
proof (cases "fixSpaces st \<and> trim (replace_runs is_space [0x20] s) \<noteq> trim s")
  case True
  let ?a = "trim (replace_runs is_space [0x20] s)"
  have "single_spaced ?a"
    by (simp add: single_spaced_trim single_spaced_replace_runs)
  then have "replace_runs is_space [0x20] ?a = ?a"
    by (rule replace_runs_single_spaced)
  then have "space_text st ?a = ?a" by (simp add: space_text_def)
  with True show ?thesis by (simp add: space_text_def)
next
  case False
  then have "space_text st s = s" by (auto simp: space_text_def)
  then show ?thesis by simp
qed

lemma space_text_preserves: "free_of Q s \<Longrightarrow> \<not> Q 0x20 \<Longrightarrow> free_of Q (space_text st s)"
  using set_trim [of "replace_runs is_space [0x20] s"] set_replace_runs [of is_space "[0x20]" s]
  by (auto simp: space_text_def free_of_def)

lemma plain_letters_no_target:
  assumes "a \<in> plain_letters"
  shows "\<not> is_dash a" "\<not> is_curly_quote a" "\<not> is_ellipsis a" "\<not> is_invisible a"
  using assms by (auto simp: plain_letters_def class_defs)

lemma punctuation_no_target:
  "\<not> is_dash 0x22" "\<not> is_dash 0x27" "\<not> is_dash 0x2E" "\<not> is_dash 0x20"
  "\<not> is_curly_quote 0x2E" "\<not> is_curly_quote 0x20"
  "\<not> is_ellipsis 0x20" "\<not> is_invisible 0x20" "\<not> is_accented 0x20"
  by (simp_all add: class_defs is_accented_def)

lemma clean_first_five:
  assumes "fixEmDash st \<longrightarrow> dash_free_template (replacer st)"
  shows "clean st (first_five st s)"
proof -
  have "fixEmDash st \<Longrightarrow> free_of is_dash (first_five st s)"
    unfolding first_five_def using assms
    by (intro accent_text_preserves invisible_text_preserves ellipsis_text_preserves
        quote_text_preserves dash_text_free)
      (simp_all add: punctuation_no_target plain_letters_no_target)
  moreover have "fixCurlyQuotes st \<Longrightarrow> free_of is_curly_quote (first_five st s)"
    unfolding first_five_def
    by (intro accent_text_preserves invisible_text_preserves ellipsis_text_preserves
        quote_text_establishes)
      (simp_all add: punctuation_no_target plain_letters_no_target)
  moreover have "fixEllipsis st \<Longrightarrow> free_of is_ellipsis (first_five st s)"
    unfolding first_five_def
    by (intro accent_text_preserves invisible_text_preserves ellipsis_text_establishes)
      (simp_all add: punctuation_no_target plain_letters_no_target)
  moreover have "fixInvisibleChars st \<Longrightarrow> free_of is_invisible (first_five st s)"
    unfolding first_five_def
    by (intro accent_text_preserves invisible_text_establishes)
      (simp_all add: plain_letters_no_target)
  moreover have "fixAccents st \<Longrightarrow> free_of is_accented (first_five st s)"
    unfolding first_five_def by (rule accent_text_establishes)
  ultimately show ?thesis by (simp add: clean_def)
qed

lemma first_five_clean: "clean st s \<Longrightarrow> first_five st s = s"
proof -
  assume c: "clean st s"
  have 1: "dash_text st s = s"
    using c by (simp add: clean_def dash_text_def replace_all_def replace_from_no_match)
  have 2: "quote_text st s = s"
    using c by (simp add: clean_def quote_text_def free_of_curly replace_all_with_no_match)
  have 3: "ellipsis_text st s = s"
    using c by (simp add: clean_def ellipsis_text_def replace_all_with_no_match)
  have 4: "invisible_text st s = s"
    using c by (simp add: clean_def invisible_text_def replace_all_with_no_match)
  have 5: "accent_text st s = s"
  proof (cases "fixAccents st")
    case True
    with c have "free_of is_accented s" by (simp add: clean_def)
    then have "replace_all_with is_latin1_range accent_callback s = s"
      by (intro replace_all_with_identity) (auto simp: free_of_def is_accented_def accent_callback_def)
    with True show ?thesis by (simp add: accent_text_def)
  qed (simp add: accent_text_def)
  show ?thesis by (simp add: first_five_def 1 2 3 4 5)
qed

lemma clean_space_text: "clean st s \<Longrightarrow> clean st (space_text st s)"
  by (simp add: clean_def space_text_preserves punctuation_no_target)

subsection \<open>Idempotence\<close>

text \<open>
  Claim C1, as amended. For every settings snapshot whose dash block is disabled or whose
  replacement string can put no dash into the text (\<open>dash_free_template\<close>: no em or en dash
  written in it, and none of the patterns \<^verbatim>\<open>$&\<close>, \<^verbatim>\<open>$`\<close>, \<^verbatim>\<open>$'\<close> that
  \<^verbatim>\<open>String.prototype.replace\<close> expands to a part of the text), and for every input string,
  the text \<^verbatim>\<open>applyTextFixes\<close> returns is a fixed point of \<^verbatim>\<open>applyTextFixes\<close>.
\<close>

theorem applyTextFixes_idempotent:
  assumes "fixEmDash st \<longrightarrow> dash_free_template (replacer st)"
  shows "fst (applyTextFixes st (fst (applyTextFixes st text))) = fst (applyTextFixes st text)"
proof -
  let ?t = "first_five st text"
  have out: "fst (applyTextFixes st text) = space_text st ?t"
    by (simp add: fst_applyTextFixes first_five_def)
  have "clean st (space_text st ?t)"
    by (intro clean_space_text clean_first_five assms)
  then have "first_five st (space_text st ?t) = space_text st ?t"
    by (rule first_five_clean)
  then have "fst (applyTextFixes st (space_text st ?t)) = space_text st (space_text st ?t)"
    by (simp add: fst_applyTextFixes first_five_def)
  then show ?thesis by (simp add: out space_text_idem)
qed

text \<open>
  The theorem at the default settings (replacement string \<^verbatim>\<open>-\<close>) and the text of the second
  end-to-end example.
\<close>

theorem applyTextFixes_idempotent_witness:
  "fixEmDash default_settings \<and> dash_free_template (replacer default_settings) \<and>
   fst (applyTextFixes default_settings (fst (applyTextFixes default_settings example2_input)))
     = fst (applyTextFixes default_settings example2_input)"
  using applyTextFixes_idempotent [of default_settings example2_input]
  by (simp add: default_settings_def loadSettings_def empty_storage_def js_def is_dash_def)

lemma double_dash_once:
  "fst (applyTextFixes double_dash_settings [0x2014]) = [0x2013, 0x2013]"
  by (simp add: fst_applyTextFixes double_dash_settings_def loadSettings_def empty_storage_def
      dash_text_def quote_text_def ellipsis_text_def invisible_text_def accent_text_def
      space_text_def replace_all_def replace_all_with_def trim_def class_defs)

lemma double_dash_twice:
  "fst (applyTextFixes double_dash_settings [0x2013, 0x2013]) = [0x2013, 0x2013, 0x2013, 0x2013]"
  by (simp add: fst_applyTextFixes double_dash_settings_def loadSettings_def empty_storage_def
      dash_text_def quote_text_def ellipsis_text_def invisible_text_def accent_text_def
      space_text_def replace_all_def replace_all_with_def trim_def class_defs)

text \<open>
  Claim C1 as stated fails when the replacement string holds a dash. With two en dashes as the
  replacement, one em dash becomes two en dashes, and a second application turns these into
  four.
\<close>

theorem applyTextFixes_not_idempotent:
  "fst (applyTextFixes double_dash_settings (fst (applyTextFixes double_dash_settings [0x2014])))
     \<noteq> fst (applyTextFixes double_dash_settings [0x2014])"
  by (simp add: double_dash_once double_dash_twice)

subsection \<open>The second end-to-end example\<close>

lemmas fix_defs = applyTextFixes_def fix_dashes_def fix_quotes_def fix_ellipsis_def
  fix_invisible_def fix_accents_def fix_spaces_def

lemmas regex_defs = match_all_def match_runs_def replace_all_def replace_all_with_def
  accent_callback_def test_class_def trim_def

text \<open>
  Claim C5 fails on the code. For the input \<^verbatim>\<open>"Quoted" text...   here\<close> (with curly quotes,
  the ellipsis character and three blanks) and the quote, ellipsis and space blocks enabled,
  \<^verbatim>\<open>applyTextFixes\<close> returns the text \<^verbatim>\<open>"Quoted" text... here\<close> with \<^verbatim>\<open>curlyQuotes\<close> = 2 and
  \<^verbatim>\<open>ellipsis\<close> = 1, but \<^verbatim>\<open>spaces\<close> = 2: the space block counts the matches of \<^verbatim>\<open>/\s+/\<close>, and
  so also the single blank after the quoted word, which it leaves as it is.
\<close>

theorem example2_counts_both_runs:
  "applyTextFixes example2_settings example2_input =
     (example2_output, no_fixes\<lparr>curlyQuotes := 2, ellipsis := 1, spaces := 2\<rparr>)"
  by (simp add: example2_settings_def example2_input_def example2_output_def fix_defs class_defs
      js_def regex_defs no_fixes_def)

text \<open>
  The count of the space block does not follow the number of runs it shortens: a text with
  single blanks only counts nothing, and one double blank among three single ones counts four.
\<close>

lemma space_count_examples:
  "applyTextFixes example2_settings (js ''a b'') = (js ''a b'', no_fixes)"
  "applyTextFixes example2_settings (js ''a b c  d e'')
     = (js ''a b c d e'', no_fixes\<lparr>spaces := 4\<rparr>)"
  by (simp_all add: example2_settings_def fix_defs class_defs js_def regex_defs no_fixes_def)

subsection \<open>The pre-check against the transformations\<close>

text \<open>
  Claim C3 fails on the code. At the default settings the pre-check \<^verbatim>\<open>needsProcessing\<close>
  answers no for the text \<^verbatim>\<open>a<TAB>b\<close>: its last test asks for two white-space characters in
  a row. The space block of \<^verbatim>\<open>applyTextFixes\<close> matches single ones too and rewrites the text
  to \<^verbatim>\<open>a b\<close>.
\<close>

theorem precheck_misses_single_tab:
  "\<not> needsProcessing default_settings (js ''a'' @ [0x09] @ js ''b'') \<and>
   applyTextFixes default_settings (js ''a'' @ [0x09] @ js ''b'')
     = (js ''a b'', no_fixes\<lparr>spaces := 1\<rparr>)"
  by (simp add: default_settings_def empty_storage_def loadSettings_def needsProcessing_def
      fix_defs class_defs js_def regex_defs no_fixes_def)

text \<open>
  The mismatch is confined to the space block: when the pre-check answers no, the five blocks
  before it leave the text as it is.
\<close>

lemma precheck_covers_character_classes:
  assumes "\<not> needsProcessing st text"
  shows "first_five st text = text"
proof (cases "text = []")
  case True
  then have "clean st text" by (simp add: clean_def)
  then show ?thesis by (rule first_five_clean)
next
  case False
  have "free_of is_accented text" if "free_of is_latin1_range text"
    using that by (simp add: free_of_def is_accented_def)
  with assms False have "clean st text"
    by (auto simp: needsProcessing_def clean_def test_class_def free_of_def list_ex_iff
        split: if_splits)
  then show ?thesis by (rule first_five_clean)
qed

subsection \<open>The empty replacement string\<close>





text \<open>
  Settings that \<^verbatim>\<open>loadSettings\<close> builds never have the empty replacement: its
  \<^verbatim>\<open>data.replacer || "-"\<close> takes the hyphen for a missing key and for the empty string alike.
\<close>

lemma loadSettings_replacer_nonempty: "replacer (loadSettings data) \<noteq> []"
  by (simp add: loadSettings_def js_def split: option.splits)

section \<open>Scanning\<close>

subsection \<open>The loop, node by node\<close>

lemma replaceNodes_Cons:
  "replaceNodes now href (p # rest) (w, h, t) =
     (case visit now href p w of (w1, e, k) \<Rightarrow> replaceNodes now href rest (w1, h @ e, t + k))"
  by (cases p) (auto simp: visit_def Let_def split: prod.splits)

lemma replaceNodes_acc:
  "replaceNodes now href nodes (w, h, t) =
     (case replaceNodes now href nodes (w, [], 0) of (w', h', n) \<Rightarrow> (w', h @ h', t + n))"
proof (induction nodes arbitrary: w h t)
  case Nil
  show ?case by simp
next
  case (Cons p rest)
  obtain w1 e k where v: "visit now href p w = (w1, e, k)"
    by (cases "visit now href p w") auto
  obtain w2 h2 n2 where r: "replaceNodes now href rest (w1, [], 0) = (w2, h2, n2)"
    by (cases "replaceNodes now href rest (w1, [], 0)") auto
  have 1: "replaceNodes now href rest (w1, h @ e, t + k) = (w2, (h @ e) @ h2, (t + k) + n2)"
    using Cons.IH [of w1 "h @ e" "t + k"] r by simp
  have 2: "replaceNodes now href rest (w1, [] @ e, 0 + k) = (w2, e @ h2, k + n2)"
    using Cons.IH [of w1 "e" "k"] r by simp
  show ?case
    using 1 2 by (simp add: replaceNodes_Cons v)
qed

lemma replaceNodes_append:
  "replaceNodes now href (xs @ ys) acc = replaceNodes now href ys (replaceNodes now href xs acc)"
proof (induction xs arbitrary: acc)
  case Nil
  show ?case by simp
next
  case (Cons p xs)
  obtain w h t where acc: "acc = (w, h, t)" by (cases acc) auto
  show ?case
    by (simp add: acc replaceNodes_Cons Cons.IH split: prod.splits)
qed

lemma scan_roots_eq:
  "scan_roots now href roots (w, h, t) =
     replaceNodes now href (concat (map shadow_walk roots)) (w, h, t)"
proof (induction roots arbitrary: w h t)
  case Nil
  show ?case by (simp add: scan_roots_def)
next
  case (Cons r roots)
  obtain w1 h1 n1 where r: "replaceNodes now href (shadow_walk r) (w, [], 0) = (w1, h1, n1)"
    by (cases "replaceNodes now href (shadow_walk r) (w, [], 0)") auto
  have a: "replaceNodes now href (shadow_walk r) (w, h, 0) = (w1, h @ h1, n1)"
    using replaceNodes_acc [of now href "shadow_walk r" w h 0] r by simp
  have b: "replaceNodes now href (shadow_walk r) (w, h, t) = (w1, h @ h1, t + n1)"
    using replaceNodes_acc [of now href "shadow_walk r" w h t] r by simp
  have "scan_roots now href (r # roots) (w, h, t) = scan_roots now href roots (w1, h @ h1, t + n1)"
    by (simp add: scan_roots_def replaceInRoot_def a)
  also have "\<dots> = replaceNodes now href (concat (map shadow_walk roots)) (w1, h @ h1, t + n1)"
    by (rule Cons.IH)
  finally show ?case
    by (simp add: replaceNodes_append b)
qed

lemma scan_document_eq:
  "scan_document now href w = replaceNodes now href (all_walk (body w)) (w, [], 0)"
  by (cases "replaceNodes now href (body_walk (body w)) (w, [], 0)")
    (simp add: scan_document_def replaceInRoot_def all_walk_def replaceNodes_append scan_roots_eq)

subsection \<open>What a scan leaves alone\<close>

lemma visit_frame:
  "visit now href p w = (w', e, k) \<Longrightarrow>
     \<exists>T P. w' = w\<lparr>textContent := T, processedNodes := P\<rparr>"
proof (cases "e = []")
  case True
  assume "visit now href p w = (w', e, k)"
  with True have "w' = w" by (auto simp: visit_def split: prod.splits if_splits)
  then have "w' = w\<lparr>textContent := textContent w, processedNodes := processedNodes w\<rparr>" by simp
  then show ?thesis by blast
next
  case False
  assume "visit now href p w = (w', e, k)"
  with False show ?thesis by (auto simp: visit_def split: prod.splits if_splits)
qed

lemma replaceNodes_frame:
  "replaceNodes now href nodes (w, h, t) = (w', h', t') \<Longrightarrow>
     \<exists>T P. w' = w\<lparr>textContent := T, processedNodes := P\<rparr>"
proof (induction nodes arbitrary: w h t)
  case Nil
  then have "w' = w\<lparr>textContent := textContent w, processedNodes := processedNodes w\<rparr>" by simp
  then show ?case by blast
next
  case (Cons p rest)
  obtain w1 e k where v: "visit now href p w = (w1, e, k)"
    by (cases "visit now href p w") auto
  from Cons.prems have "replaceNodes now href rest (w1, h @ e, t + k) = (w', h', t')"
    by (simp add: replaceNodes_Cons v)
  then obtain T P where "w' = w1\<lparr>textContent := T, processedNodes := P\<rparr>"
    using Cons.IH by blast
  moreover obtain T1 P1 where "w1 = w\<lparr>textContent := T1, processedNodes := P1\<rparr>"
    using visit_frame [OF v] by blast
  ultimately have "w' = w\<lparr>textContent := T, processedNodes := P\<rparr>" by simp
  then show ?case by blast
qed

lemma replaceNodes_same:
  assumes "replaceNodes now href nodes (w, h, t) = (w', h', t')"
  shows "settings w' = settings w" "body w' = body w" "sync w' = sync w" "trace w' = trace w"
    "isActive w' = isActive w" "replacementCount w' = replacementCount w"
    "lastScanTime w' = lastScanTime w" "scanThrottle w' = scanThrottle w"
  using replaceNodes_frame [OF assms] by auto

lemma scan_document_same:
  assumes "scan_document now href w = (w1, h, n)"
  shows "settings w1 = settings w" "body w1 = body w" "sync w1 = sync w" "trace w1 = trace w"
    "isActive w1 = isActive w" "replacementCount w1 = replacementCount w"
    "lastScanTime w1 = lastScanTime w" "scanThrottle w1 = scanThrottle w"
  using replaceNodes_same [OF assms [unfolded scan_document_eq]] by simp_all

lemma visit_rewritten:
  "visit now href p w = (w1, e, k) \<Longrightarrow>
     processedNodes w \<subseteq> processedNodes w1 \<and>
     (\<forall>n. textContent w1 n \<noteq> textContent w n \<longrightarrow> n \<in> processedNodes w1 \<and> n \<notin> processedNodes w)"
  by (auto simp: visit_def acceptNode_def split: prod.splits if_splits)

lemma replaceNodes_rewritten:
  "replaceNodes now href nodes (w, h, t) = (w', h', t') \<Longrightarrow>
     processedNodes w \<subseteq> processedNodes w' \<and>
     (\<forall>n. textContent w' n \<noteq> textContent w n \<longrightarrow> n \<in> processedNodes w' \<and> n \<notin> processedNodes w)"
proof (induction nodes arbitrary: w h t)
  case Nil
  then show ?case by simp
next
  case (Cons q rest)
  obtain w1 e k where v: "visit now href q w = (w1, e, k)"
    by (cases "visit now href q w") auto
  from Cons.prems have r: "replaceNodes now href rest (w1, h @ e, t + k) = (w', h', t')"
    by (simp add: replaceNodes_Cons v)
  from Cons.IH [OF r] visit_rewritten [OF v] show ?case
    by (metis subset_iff)
qed

subsection \<open>The entries of a scan\<close>

lemma visit_entries:
  assumes "visit now href p w = (w1, e, k)"
  shows "k = sum_list (map totalFixes e)"
    and "\<forall>x \<in> set e. totalFixes x = sum_counts (fixCounts x) \<and> before x \<noteq> after x \<and>
           after x = fst (applyTextFixes (settings w) (before x)) \<and>
           fixCounts x = snd (applyTextFixes (settings w) (before x))"
  using assms by (auto simp: visit_def split: prod.splits if_splits)

lemma replaceNodes_entries:
  assumes "replaceNodes now href nodes (w, [], 0) = (w', new, n)"
  shows "n = sum_list (map totalFixes new) \<and>
     (\<forall>x \<in> set new. totalFixes x = sum_counts (fixCounts x) \<and> before x \<noteq> after x \<and>
           after x = fst (applyTextFixes (settings w) (before x)) \<and>
           fixCounts x = snd (applyTextFixes (settings w) (before x)))"
  using assms
proof (induction nodes arbitrary: w new n)
  case Nil
  then show ?case by simp
next
  case (Cons p rest)
  obtain w1 e k where v: "visit now href p w = (w1, e, k)"
    by (cases "visit now href p w") auto
  obtain w2 h2 n2 where r: "replaceNodes now href rest (w1, [], 0) = (w2, h2, n2)"
    by (cases "replaceNodes now href rest (w1, [], 0)") auto
  have "replaceNodes now href rest (w1, e, k) = (w2, e @ h2, k + n2)"
    using replaceNodes_acc [of now href rest w1 e k] r by simp
  with Cons.prems have new: "new = e @ h2" and n: "n = k + n2" and w2: "w2 = w'"
    by (simp_all add: replaceNodes_Cons v)
  have st: "settings w1 = settings w"
    using visit_frame [OF v] by auto
  from Cons.IH [OF r [unfolded w2]] visit_entries [OF v] show ?case
    by (auto simp: new n st)
qed

lemma scan_document_count:
  assumes "scan_document now href w = (w1, h, n)"
  shows "n = sum_list (map totalFixes h)"
  using replaceNodes_entries [OF assms [unfolded scan_document_eq]] by simp

subsection \<open>The example page\<close>

lemma default_settings_eq:
  "default_settings = \<lparr>replacer = [0x2D], fixEmDash = True, fixCurlyQuotes = True,
     fixEllipsis = True, fixInvisibleChars = True, fixAccents = False, fixSpaces = True\<rparr>"
  by (simp add: default_settings_def loadSettings_def empty_storage_def js_def)

lemma default_dash:
  "applyTextFixes default_settings text_dash = (js ''a-b'', no_fixes\<lparr>emDash := 1\<rparr>)"
  "needsProcessing default_settings text_dash"
  by (simp_all add: default_settings_eq text_dash_def needsProcessing_def fix_defs class_defs
      js_def regex_defs no_fixes_def)

lemma default_ellipsis:
  "applyTextFixes default_settings [0x2026] = (js ''...'', no_fixes\<lparr>ellipsis := 1\<rparr>)"
  "needsProcessing default_settings [0x2026]"
  by (simp_all add: default_settings_eq needsProcessing_def fix_defs class_defs
      js_def regex_defs no_fixes_def)

lemma default_plain: "\<not> needsProcessing default_settings (js ''plain'')"
  by (simp add: default_settings_eq needsProcessing_def class_defs js_def test_class_def)

lemma text_dash_changes:
  "js ''a-b'' \<noteq> text_dash" "js ''...'' \<noteq> [0x2026]"
  "text_dash \<noteq> js ''a-b''" "[0x2026] \<noteq> js ''...''"
  by (simp_all add: text_dash_def js_def)

lemma example_text_at:
  "example_text 0 = text_dash" "example_text (Suc 0) = text_dash"
  "example_text 2 = js ''plain''" "example_text 3 = [0x2026]"
  by (simp_all add: example_text_def)

lemma example_fields:
  "lastScanTime example_world = 0" "scanThrottle example_world = 100"
  "settings example_world = default_settings" "textContent example_world = example_text"
  "isActive example_world" "body example_world = example_body"
  by (simp_all add: example_world_def)

lemma example_walk: "all_walk example_body = [(0, False), (1, True), (2, False), (3, False)]"
  by (simp add: example_body_def all_walk_def body_walk_def shadow_walk_def)

lemma example_scan:
  "scan_document 1000 example_href example_world = (example_scanned, [entry_dash, entry_ellipsis], 2)"
  by (simp add: scan_document_eq example_walk replaceNodes_Cons visit_def example_world_def
      example_text_at acceptNode_def default_dash default_ellipsis default_plain text_dash_changes
      example_scanned_def entry_dash_def entry_ellipsis_def sum_counts_def no_fixes_def)

lemma example_body_scan:
  "replaceInRoot 1000 example_href (body_walk example_body) (example_world, []) =
     (example_world\<lparr>textContent := example_text(0 := js ''a-b''), processedNodes := {0}\<rparr>,
      [entry_dash], 1)"
  by (simp add: replaceInRoot_def example_body_def body_walk_def replaceNodes_Cons visit_def
      example_fields example_text_at acceptNode_def default_dash default_plain
      text_dash_changes entry_dash_def sum_counts_def no_fixes_def)
    (simp add: example_world_def)

lemma quiet_scan: "scan_document 1000 example_href quiet_world = (quiet_world, [], 0)"
  by (simp add: scan_document_eq quiet_world_def example_fields example_walk replaceNodes_Cons
      visit_def acceptNode_def default_plain)

text \<open>
  Claim C10. Every entry a call of \<^verbatim>\<open>replaceInRoot\<close> pushes onto \<^verbatim>\<open>localHistory\<close> has a
  \<^verbatim>\<open>totalFixes\<close> equal to the sum of its six category counts, and was pushed for a text that
  changed; the entries already there stay in front, and the number the call returns is the sum
  of \<^verbatim>\<open>totalFixes\<close> over the entries it pushed.
\<close>

theorem history_totals:
  assumes "replaceInRoot now href nodes (w, h) = (w', h', n)"
  shows "take (length h) h' = h \<and>
     n = sum_list (map totalFixes (drop (length h) h')) \<and>
     (\<forall>e \<in> set (drop (length h) h').
        totalFixes e = emDash (fixCounts e) + curlyQuotes (fixCounts e) + ellipsis (fixCounts e)
          + invisibleChars (fixCounts e) + accents (fixCounts e) + spaces (fixCounts e) \<and>
        before e \<noteq> after e)"
proof -
  obtain w1 new k where r: "replaceNodes now href nodes (w, [], 0) = (w1, new, k)"
    by (cases "replaceNodes now href nodes (w, [], 0)") auto
  have "replaceNodes now href nodes (w, h, 0) = (w1, h @ new, k)"
    using replaceNodes_acc [of now href nodes w h 0] r by simp
  with assms have "h' = h @ new" "n = k"
    by (simp_all add: replaceInRoot_def)
  moreover from replaceNodes_entries [OF r]
  have "k = sum_list (map totalFixes new)"
    and "\<forall>x \<in> set new. totalFixes x = sum_counts (fixCounts x) \<and> before x \<noteq> after x"
    by blast+
  ultimately show ?thesis
    by (simp add: sum_counts_def)
qed

text \<open>
  The theorem at the body of the example page: one entry, for the em dash.
\<close>

theorem history_totals_witness:
  "replaceInRoot 1000 example_href (body_walk example_body) (example_world, []) =
     (example_world\<lparr>textContent := example_text(0 := js ''a-b''), processedNodes := {0}\<rparr>,
      [entry_dash], 1) \<and>
   1 = totalFixes entry_dash \<and>
   totalFixes entry_dash =
     emDash (fixCounts entry_dash) + curlyQuotes (fixCounts entry_dash)
       + ellipsis (fixCounts entry_dash) + invisibleChars (fixCounts entry_dash)
       + accents (fixCounts entry_dash) + spaces (fixCounts entry_dash) \<and>
   before entry_dash \<noteq> after entry_dash"
  using history_totals [OF example_body_scan] example_body_scan
  by simp

subsection \<open>Scanning twice\<close>

lemma visit_settled: "settled w p \<Longrightarrow> visit now href p w = (w, [], 0)"
  by (cases p) (auto simp: settled_def visit_def)

lemma replaceNodes_settled:
  "list_all (settled w) nodes \<Longrightarrow> replaceNodes now href nodes (w, h, t) = (w, h, t)"
  by (induction nodes) (simp_all add: replaceNodes_Cons visit_settled)

lemma visit_settles: "visit now href p w = (w1, e, k) \<Longrightarrow> settled w1 p"
  by (cases p) (auto simp: visit_def settled_def acceptNode_def split: if_splits)

lemma visit_keeps_settled:
  "visit now href q w = (w1, e, k) \<Longrightarrow> settled w p \<Longrightarrow> settled w1 p"
  by (cases p; cases q) (auto simp: visit_def settled_def acceptNode_def split: if_splits)

lemma replaceNodes_keeps_settled:
  "replaceNodes now href nodes (w, h, t) = (w', h', t') \<Longrightarrow> settled w p \<Longrightarrow> settled w' p"
proof (induction nodes arbitrary: w h t)
  case Nil
  then show ?case by simp
next
  case (Cons q rest)
  obtain w1 e k where v: "visit now href q w = (w1, e, k)"
    by (cases "visit now href q w") auto
  from Cons.prems(1) have "replaceNodes now href rest (w1, h @ e, t + k) = (w', h', t')"
    by (simp add: replaceNodes_Cons v)
  moreover have "settled w1 p" using v Cons.prems(2) by (rule visit_keeps_settled)
  ultimately show ?case by (rule Cons.IH)
qed

lemma replaceNodes_settles:
  "replaceNodes now href nodes (w, h, t) = (w', h', t') \<Longrightarrow> list_all (settled w') nodes"
proof (induction nodes arbitrary: w h t)
  case Nil
  then show ?case by simp
next
  case (Cons q rest)
  obtain w1 e k where v: "visit now href q w = (w1, e, k)"
    by (cases "visit now href q w") auto
  from Cons.prems have r: "replaceNodes now href rest (w1, h @ e, t + k) = (w', h', t')"
    by (simp add: replaceNodes_Cons v)
  have "settled w1 q" using v by (rule visit_settles)
  with r have "settled w' q" by (rule replaceNodes_keeps_settled)
  moreover from r have "list_all (settled w') rest" by (rule Cons.IH)
  ultimately show ?case by simp
qed

lemma all_walk_settled:
  assumes "scan_document now href w = (w1, h1, n1)"
  shows "list_all (settled w1) (all_walk (body w1))"
proof -
  from assms have r: "replaceNodes now href (all_walk (body w)) (w, [], 0) = (w1, h1, n1)"
    by (simp add: scan_document_eq)
  then have "list_all (settled w1) (all_walk (body w))" by (rule replaceNodes_settles)
  then show ?thesis by (simp add: replaceNodes_same(2) [OF r])
qed

text \<open>
  Claim C9, as amended. After a scan of the document, a second scan with nothing changed in
  between pushes no entry, counts no replacement and leaves the world as it is: every node the
  first scan rewrote is in \<^verbatim>\<open>processedNodes\<close>, and every node of the walk is in
  \<^verbatim>\<open>processedNodes\<close>, or fails the pre-check, or lies in an excluded region, or has a text the
  transformation returns unchanged.
\<close>

theorem second_scan_finds_nothing:
  assumes "scan_document now href w = (w1, h1, n1)"
  shows "scan_document now' href' w1 = (w1, [], 0) \<and>
     (\<forall>n. textContent w1 n \<noteq> textContent w n \<longrightarrow> n \<in> processedNodes w1) \<and>
     (\<forall>(n, excluded) \<in> set (all_walk (body w1)).
        n \<in> processedNodes w1 \<or> \<not> needsProcessing (settings w1) (textContent w1 n) \<or> excluded \<or>
        fst (applyTextFixes (settings w1) (textContent w1 n)) = textContent w1 n)"
proof -
  have s: "list_all (settled w1) (all_walk (body w1))"
    using assms by (rule all_walk_settled)
  then have "scan_document now' href' w1 = (w1, [], 0)"
    by (simp add: scan_document_eq replaceNodes_settled)
  moreover from assms have "replaceNodes now href (all_walk (body w)) (w, [], 0) = (w1, h1, n1)"
    by (simp add: scan_document_eq)
  then have "\<forall>n. textContent w1 n \<noteq> textContent w n \<longrightarrow> n \<in> processedNodes w1"
    using replaceNodes_rewritten by blast
  moreover from s have "\<forall>(n, excluded) \<in> set (all_walk (body w1)).
        n \<in> processedNodes w1 \<or> \<not> needsProcessing (settings w1) (textContent w1 n) \<or> excluded \<or>
        fst (applyTextFixes (settings w1) (textContent w1 n)) = textContent w1 n"
    by (auto simp: list_all_iff settled_def acceptNode_def split: if_splits)
  ultimately show ?thesis by blast
qed

text \<open>
  The theorem at the example page: the first scan rewrites two nodes, the second none.
\<close>

theorem second_scan_finds_nothing_witness:
  "scan_document 1000 example_href example_world
     = (example_scanned, [entry_dash, entry_ellipsis], 2) \<and>
   scan_document 2000 example_href example_scanned = (example_scanned, [], 0) \<and>
   processedNodes example_scanned = {3, 0}"
proof -
  from second_scan_finds_nothing [OF example_scan]
  have "scan_document 2000 example_href example_scanned = (example_scanned, [], 0)" by blast
  moreover have "processedNodes example_scanned = {3, 0}" by (simp add: example_scanned_def)
  ultimately show ?thesis using example_scan by blast
qed

text \<open>
  Claim C9 as stated fails in its last part. The text node inside the script element of the
  example page is not rewritten by the first scan and is not in \<^verbatim>\<open>processedNodes\<close>, yet the
  transformation would change its text: the scan skips it because of where it is.
\<close>

theorem excluded_node_not_a_fixed_point:
  "scan_document 1000 example_href example_world
     = (example_scanned, [entry_dash, entry_ellipsis], 2) \<and>
   (1, True) \<in> set (all_walk (body example_scanned)) \<and>
   textContent example_scanned 1 = textContent example_world 1 \<and>
   1 \<notin> processedNodes example_scanned \<and>
   fst (applyTextFixes (settings example_scanned) (textContent example_scanned 1))
     \<noteq> textContent example_scanned 1"
proof -
  have "(1, True) \<in> set (all_walk (body example_scanned))"
    by (simp add: example_scanned_def example_fields example_walk)
  moreover have "textContent example_scanned 1 = textContent example_world 1"
    and "1 \<notin> processedNodes example_scanned"
    by (simp_all add: example_scanned_def example_fields)
  moreover have "fst (applyTextFixes (settings example_scanned) (textContent example_scanned 1))
     \<noteq> textContent example_scanned 1"
    by (simp add: example_scanned_def example_fields example_text_at default_dash
        text_dash_changes)
  ultimately show ?thesis using example_scan by blast
qed

section \<open>Statistics\<close>

lemma slice_last_slice_last:
  "slice_last k (slice_last k xs @ ys) = slice_last k (xs @ ys)"
  by (cases "length xs \<le> k") (auto simp: slice_last_def add.commute)

lemma slice_last_props:
  "length (slice_last k xs) \<le> k" "take (length xs - k) xs @ slice_last k xs = xs"
  by (simp_all add: slice_last_def)

lemma stored_history_update:
  "stored_history (updateStorageWithResults l n w) = slice_last 100 (stored_history w @ l)"
  by (simp add: stored_history_def updateStorageWithResults_def Let_def)

lemma merge_all_history:
  "stored_history (merge_all ((l, n) # ms) w) =
     slice_last 100 (stored_history w @ l @ concat (map fst ms))"
proof (induction ms arbitrary: w l n)
  case Nil
  show ?case by (simp add: merge_all_def stored_history_update)
next
  case (Cons m ms)
  obtain l' n' where m: "m = (l', n')" by (cases m) auto
  have "stored_history (merge_all ((l, n) # m # ms) w) =
      stored_history (merge_all ((l', n') # ms) (updateStorageWithResults l n w))"
    by (simp add: merge_all_def m)
  also have "\<dots> = slice_last 100 (slice_last 100 (stored_history w @ l) @ l' @ concat (map fst ms))"
    by (simp add: Cons.IH stored_history_update)
  finally show ?case
    by (simp add: slice_last_slice_last m)
qed

text \<open>
  Claim C8. After any sequence of one or more merges, the stored history is the last 100
  entries of the history stored before, followed by the local entries of the merges in their
  order: it never has more than 100 entries, and what is missing from it is a prefix, the
  oldest entries.
\<close>

theorem history_bound:
  "stored_history (merge_all ((l, n) # ms) w) =
     slice_last 100 (stored_history w @ l @ concat (map fst ms)) \<and>
   length (stored_history (merge_all ((l, n) # ms) w)) \<le> 100 \<and>
   take (length (stored_history w @ l @ concat (map fst ms)) - 100)
        (stored_history w @ l @ concat (map fst ms))
     @ stored_history (merge_all ((l, n) # ms) w)
     = stored_history w @ l @ concat (map fst ms)"
  unfolding merge_all_history
  using slice_last_props [where k = 100 and xs = "stored_history w @ l @ concat (map fst ms)"]
  by blast

lemma js_plus_number: "js_plus (Some (Num a)) n = Some (Num (a + n))"
  by simp

lemma add_counts_numbers:
  "foldl add_counts (numbers c) h = numbers (count_sums c h)"
proof (induction h arbitrary: c)
  case Nil
  show ?case by (simp add: count_sums_def numbers_def)
next
  case (Cons e h)
  have "add_counts (numbers c) e = numbers (count_sums c [e])"
    by (simp add: add_counts_def numbers_def count_sums_def)
  moreover have "count_sums (count_sums c [e]) h = count_sums c (e # h)"
    by (simp add: count_sums_def)
  ultimately show ?case by (simp add: Cons.IH)
qed

lemma zero_stats_numbers: "zero_stats = numbers no_fixes"
  by (simp add: zero_stats_def numbers_def no_fixes_def)

text \<open>
  Claim C7, as amended. A scan of an active processor that counts at least one replacement
  runs the merge once (one write of the merged history, total and statistics object) and then
  sends one \<^verbatim>\<open>updateStats\<close> message with the count of the scan, the \<^verbatim>\<open>after\<close> texts of its
  entries joined by line feeds, and the statistics object. Whenever the stored statistics
  object is missing or holds all six counters as numbers, the merged object holds the sums,
  category by category. A scan that counts no replacement, as every scan without a changed
  node does, writes nothing and sends nothing.
\<close>

theorem merge_once_when_replacements:
  assumes "isActive w" and "scan_document now href w = (w1, h, n)"
  shows "trace (performScan now href w) =
       trace w @
         (if n > 0
          then [StorageSet (slice_last 100 (stored_history w @ h)) (stored_total w + n)
                  (foldl add_counts (stored_stats w) h),
                UpdateStats n (join [0x0A] (map after h)) (foldl add_counts (stored_stats w) h)]
          else []) \<and>
     sync (performScan now href w) =
       (if n > 0
        then (sync w)\<lparr>s_history := Some (slice_last 100 (stored_history w @ h)),
                      s_totalReplacements := Some (stored_total w + n),
                      s_fixStats := Some (foldl add_counts (stored_stats w) h)\<rparr>
        else sync w) \<and>
     (\<forall>c. stored_stats w = numbers c \<longrightarrow>
          foldl add_counts (stored_stats w) h = numbers (count_sums c h)) \<and>
     (h = [] \<longrightarrow> n = 0)"
proof -
  note same = scan_document_same [OF assms(2)]
  have ps: "performScan now href w =
      (if n > 0
       then updateStorageWithResults h n (w1\<lparr>replacementCount := replacementCount w1 + n\<rparr>)
       else w1)"
    using assms by (simp add: performScan_def)
  have "h = [] \<longrightarrow> n = 0"
    using scan_document_count [OF assms(2)] by simp
  moreover have "trace (performScan now href w) =
       trace w @
         (if n > 0
          then [StorageSet (slice_last 100 (stored_history w @ h)) (stored_total w + n)
                  (foldl add_counts (stored_stats w) h),
                UpdateStats n (join [0x0A] (map after h)) (foldl add_counts (stored_stats w) h)]
          else [])"
    by (simp add: ps updateStorageWithResults_def Let_def stored_history_def stored_total_def
        stored_stats_def same)
  moreover have "sync (performScan now href w) =
       (if n > 0
        then (sync w)\<lparr>s_history := Some (slice_last 100 (stored_history w @ h)),
                      s_totalReplacements := Some (stored_total w + n),
                      s_fixStats := Some (foldl add_counts (stored_stats w) h)\<rparr>
        else sync w)"
    by (simp add: ps updateStorageWithResults_def Let_def stored_history_def stored_total_def
        stored_stats_def same)
  moreover have "\<forall>c. stored_stats w = numbers c \<longrightarrow>
          foldl add_counts (stored_stats w) h = numbers (count_sums c h)"
    by (simp add: add_counts_numbers)
  ultimately show ?thesis by blast
qed

text \<open>
  The theorem at the example page, whose storage has no statistics object yet: two
  replacements, one write, one message, the counters of both entries added to zero.
\<close>

theorem merge_once_when_replacements_witness:
  "isActive example_world \<and>
   scan_document 1000 example_href example_world
     = (example_scanned, [entry_dash, entry_ellipsis], 2) \<and>
   stored_stats example_world = numbers no_fixes \<and>
   trace (performScan 1000 example_href example_world) =
     [StorageSet [entry_dash, entry_ellipsis] 2 (numbers (no_fixes\<lparr>emDash := 1, ellipsis := 1\<rparr>)),
      UpdateStats 2 (js ''a-b'' @ [0x0A] @ js ''...'')
        (numbers (no_fixes\<lparr>emDash := 1, ellipsis := 1\<rparr>))]"
proof -
  have st: "stored_stats example_world = numbers no_fixes"
    by (simp add: stored_stats_def example_world_def empty_storage_def zero_stats_numbers)
  have cs: "count_sums no_fixes [entry_dash, entry_ellipsis] = no_fixes\<lparr>emDash := 1, ellipsis := 1\<rparr>"
    by (simp add: count_sums_def entry_dash_def entry_ellipsis_def no_fixes_def)
  have f: "foldl add_counts (stored_stats example_world) [entry_dash, entry_ellipsis]
      = numbers (no_fixes\<lparr>emDash := 1, ellipsis := 1\<rparr>)"
    unfolding st add_counts_numbers cs by (rule refl)
  have e: "trace example_world = []" "stored_history example_world = []"
    "stored_total example_world = 0"
    by (simp_all add: example_world_def stored_history_def stored_total_def empty_storage_def)
  have j: "join [0x0A] (map after [entry_dash, entry_ellipsis]) = js ''a-b'' @ [0x0A] @ js ''...''"
    by (simp add: entry_dash_def entry_ellipsis_def)
  from merge_once_when_replacements [OF example_fields(5) example_scan]
  have "trace (performScan 1000 example_href example_world) =
       trace example_world @
         (if (2::nat) > 0
          then [StorageSet (slice_last 100 (stored_history example_world @ [entry_dash, entry_ellipsis]))
                  (stored_total example_world + 2)
                  (foldl add_counts (stored_stats example_world) [entry_dash, entry_ellipsis]),
                UpdateStats 2 (join [0x0A] (map after [entry_dash, entry_ellipsis]))
                  (foldl add_counts (stored_stats example_world) [entry_dash, entry_ellipsis])]
          else [])"
    by blast
  then have "trace (performScan 1000 example_href example_world) =
     [StorageSet [entry_dash, entry_ellipsis] 2 (numbers (no_fixes\<lparr>emDash := 1, ellipsis := 1\<rparr>)),
      UpdateStats 2 (js ''a-b'' @ [0x0A] @ js ''...'')
        (numbers (no_fixes\<lparr>emDash := 1, ellipsis := 1\<rparr>))]"
    unfolding f e j by (simp add: slice_last_def)
  with example_fields(5) example_scan st show ?thesis by blast
qed

text \<open>
  A stored statistics object without counters, as the installer writes it, is outside the
  sums: every counter the merge adds to becomes \<^verbatim>\<open>NaN\<close>.
\<close>

lemma installed_stats_not_numbers:
  "foldl add_counts (stored_stats installed_world) [entry_dash, entry_ellipsis] =
     \<lparr>stat_emDash = Some NaN, stat_curlyQuotes = Some NaN, stat_ellipsis = Some NaN,
      stat_invisibleChars = Some NaN, stat_accents = Some NaN, stat_spaces = Some NaN\<rparr>"
  by (simp add: stored_stats_def installed_world_def installed_storage_def add_counts_def)

text \<open>
  Claim C7 as stated fails for a scan without a changed node: on the page with plain text
  only, \<^verbatim>\<open>performScan\<close> completes and neither writes to the storage nor sends a message.
\<close>

theorem quiet_scan_merges_nothing:
  "isActive quiet_world \<and>
   scan_document 1000 example_href quiet_world = (quiet_world, [], 0) \<and>
   performScan 1000 example_href quiet_world = quiet_world \<and>
   trace (performScan 1000 example_href quiet_world) = []"
proof -
  have a: "isActive quiet_world" by (simp add: quiet_world_def example_fields)
  have p: "performScan 1000 example_href quiet_world = quiet_world"
    by (simp add: performScan_def quiet_scan a)
  have "trace quiet_world = []" by (simp add: quiet_world_def example_world_def)
  with a p quiet_scan show ?thesis by simp
qed

section \<open>The change monitor\<close>

lemma mutation_needs_scan_time:
  "mutation_needs_scan (w\<lparr>lastScanTime := t\<rparr>) = mutation_needs_scan w"
proof
  fix m
  have "added_node_needs_scan (w\<lparr>lastScanTime := t\<rparr>) = added_node_needs_scan w"
  proof
    fix d
    show "added_node_needs_scan (w\<lparr>lastScanTime := t\<rparr>) d = added_node_needs_scan w d"
      by (cases d) (simp_all add: containsTargetTextInSubtree_def)
  qed
  then show "mutation_needs_scan (w\<lparr>lastScanTime := t\<rparr>) m = mutation_needs_scan w m"
    by (cases m) simp_all
qed

lemma example_batches:
  "\<not> list_ex (mutation_needs_scan example_world) batch_plain"
  "list_ex (mutation_needs_scan example_world) batch_dash"
  by (simp_all add: batch_plain_def batch_dash_def example_fields example_text_at
      containsTargetText_def default_plain default_dash)

text \<open>
  Claim C4, as amended. When a batch arrives outside the throttle window and none of its
  records has transformable text, \<^verbatim>\<open>handleMutations\<close> does not scan; it changes nothing but
  \<^verbatim>\<open>lastScanTime\<close>, which it sets to the arrival time. Any batch that arrives less than
  \<^verbatim>\<open>scanThrottle\<close> after that one is therefore dropped, whatever it holds.
\<close>

theorem idle_batch_records_time:
  assumes "\<not> (now - lastScanTime w < scanThrottle w)"
    and "\<not> list_ex (mutation_needs_scan w) mutations"
  shows "handleMutations now href mutations w = w\<lparr>lastScanTime := now\<rparr> \<and>
     (\<forall>now' mutations'. now' - now < scanThrottle w \<longrightarrow>
        handleMutations now' href mutations' (handleMutations now href mutations w)
          = handleMutations now href mutations w)"
proof -
  have "handleMutations now href mutations w = w\<lparr>lastScanTime := now\<rparr>"
    using assms by (simp add: handleMutations_def Let_def mutation_needs_scan_time)
  then show ?thesis by (simp add: handleMutations_def)
qed

text \<open>
  The theorem at the example page: a batch about the plain text node at time 1000, then a
  batch about the node with the em dash at time 1050.
\<close>

theorem idle_batch_records_time_witness:
  "\<not> (1000 - lastScanTime example_world < scanThrottle example_world) \<and>
   \<not> list_ex (mutation_needs_scan example_world) batch_plain \<and>
   handleMutations 1000 example_href batch_plain example_world = example_world\<lparr>lastScanTime := 1000\<rparr> \<and>
   1050 - 1000 < scanThrottle example_world \<and>
   handleMutations 1050 example_href batch_dash
       (handleMutations 1000 example_href batch_plain example_world)
     = handleMutations 1000 example_href batch_plain example_world"
proof -
  have idle: "\<not> (1000 - lastScanTime example_world < scanThrottle example_world)"
    by (simp add: example_fields)
  have soon: "1050 - 1000 < scanThrottle example_world"
    by (simp add: example_fields)
  from idle_batch_records_time [OF idle example_batches(1), of example_href] idle soon
    example_batches(1)
  show ?thesis by blast
qed

text \<open>
  Claim C4 as stated fails: the first batch holds no transformable text and arrives outside
  the throttle window, yet it records its arrival time, and the batch that follows 50 ms later
  with the em dash is dropped; the em dash stays.
\<close>

theorem following_batch_dropped:
  "\<not> (1000 - lastScanTime example_world < scanThrottle example_world) \<and>
   \<not> list_ex (mutation_needs_scan example_world) batch_plain \<and>
   lastScanTime (handleMutations 1000 example_href batch_plain example_world) = 1000 \<and>
   list_ex (mutation_needs_scan (handleMutations 1000 example_href batch_plain example_world))
     batch_dash \<and>
   handleMutations 1050 example_href batch_dash
       (handleMutations 1000 example_href batch_plain example_world)
     = handleMutations 1000 example_href batch_plain example_world \<and>
   textContent (handleMutations 1050 example_href batch_dash
       (handleMutations 1000 example_href batch_plain example_world)) 0 = text_dash"
proof -
  have 1: "handleMutations 1000 example_href batch_plain example_world
      = example_world\<lparr>lastScanTime := 1000\<rparr>"
    using example_batches(1)
    by (simp add: handleMutations_def Let_def mutation_needs_scan_time example_fields)
  have 2: "handleMutations 1050 example_href batch_dash (example_world\<lparr>lastScanTime := 1000\<rparr>)
      = example_world\<lparr>lastScanTime := 1000\<rparr>"
    by (simp add: handleMutations_def example_fields)
  show ?thesis
    by (simp add: 1 2 example_fields example_batches mutation_needs_scan_time example_text_at)
qed

section \<open>Reloading the settings\<close>

lemma performScan_processed:
  "settings (performScan now href w) = settings w \<and>
   processedNodes w \<subseteq> processedNodes (performScan now href w) \<and>
   (\<forall>n \<in> processedNodes w. textContent (performScan now href w) n = textContent w n)"
proof (cases "isActive w")
  case False
  then show ?thesis by (simp add: performScan_def)
next
  case True
  obtain w1 h n where s: "scan_document now href w = (w1, h, n)"
    by (cases "scan_document now href w") auto
  have ps: "performScan now href w =
      (if n > 0
       then updateStorageWithResults h n (w1\<lparr>replacementCount := replacementCount w1 + n\<rparr>)
       else w1)"
    using True s by (simp add: performScan_def)
  have f: "settings (performScan now href w) = settings w1"
    "processedNodes (performScan now href w) = processedNodes w1"
    "textContent (performScan now href w) = textContent w1"
    by (simp_all add: ps updateStorageWithResults_def Let_def)
  from s have r: "replaceNodes now href (all_walk (body w)) (w, [], 0) = (w1, h, n)"
    by (simp add: scan_document_eq)
  from replaceNodes_rewritten [OF r] scan_document_same(1) [OF s] show ?thesis
    unfolding f by blast
qed

lemma reload_text_at:
  "reload_text 0 = text_dash_ellipsis" "reload_text (Suc 0) = [0x2026]"
  by (simp_all add: reload_text_def)

lemma reload_first_scan:
  "scan_document 1000 example_href reload_world =
     (reload_world\<lparr>textContent := reload_text(0 := js ''a-b'' @ [0x2026]),
                  processedNodes := {0}\<rparr>,
      [\<lparr>before = text_dash_ellipsis, after = js ''a-b'' @ [0x2026], timestamp = 1000,
        url = example_href, fixCounts = no_fixes\<lparr>emDash := 1\<rparr>, totalFixes = 1\<rparr>], 1)"
proof -
  have a: "applyTextFixes (loadSettings reload_storage) text_dash_ellipsis
      = (js ''a-b'' @ [0x2026], no_fixes\<lparr>emDash := 1\<rparr>)"
    and n: "needsProcessing (loadSettings reload_storage) text_dash_ellipsis"
    and n1: "\<not> needsProcessing (loadSettings reload_storage) [0x2026]"
    by (simp_all add: reload_storage_def empty_storage_def loadSettings_def text_dash_ellipsis_def
        needsProcessing_def fix_defs class_defs js_def regex_defs no_fixes_def)
  have d: "text_dash_ellipsis \<noteq> js ''a-b'' @ [0x2026]"
    "js ''a-b'' @ [0x2026] \<noteq> text_dash_ellipsis"
    by (simp_all add: text_dash_ellipsis_def js_def)
  show ?thesis
    by (simp add: scan_document_eq all_walk_def body_walk_def replaceNodes_Cons visit_def
        reload_world_def reload_text_at acceptNode_def a n n1 d sum_counts_def no_fixes_def)
qed

lemma reload_after_scan_fields:
  "processedNodes reload_after_scan = {0}"
  "textContent reload_after_scan 0 = js ''a-b'' @ [0x2026]"
  "textContent reload_after_scan (Suc 0) = [0x2026]"
  "s_fixEllipsis (sync reload_after_scan) = Some False"
  "isActive reload_after_scan"
  "body reload_after_scan = Element ''BODY'' False False [TextNode 0, TextNode 1] None"
  "loadSettings ((sync reload_after_scan)\<lparr>s_fixEllipsis := Some True\<rparr>) = default_settings"
  unfolding reload_after_scan_def performScan_def reload_first_scan
  by (simp_all add: updateStorageWithResults_def Let_def reload_world_def reload_storage_def
      reload_text_at loadSettings_def default_settings_def empty_storage_def)

lemma reload_toggled_fields:
  "processedNodes reload_toggled = {0}"
  "textContent reload_toggled 0 = js ''a-b'' @ [0x2026]"
  "textContent reload_toggled (Suc 0) = [0x2026]"
  "s_fixEllipsis (sync reload_toggled) = Some True"
  "isActive reload_toggled"
  "body reload_toggled = Element ''BODY'' False False [TextNode 0, TextNode 1] None"
  "loadSettings (sync reload_toggled) = default_settings"
  by (simp_all add: reload_toggled_def reload_after_scan_fields)

lemma reload_final_eq:
  "onMessage 2000 example_href SettingsUpdated reload_toggled = (reload_final, SettingsResponse)"
  by (simp add: reload_final_def Let_def)

lemma reload_final_scan:
  "reload_final =
     performScan 2000 example_href (reload_toggled\<lparr>settings := loadSettings (sync reload_toggled)\<rparr>)"
  by (simp add: reload_final_def Let_def performImmediateScan_def)

lemma reload_final_fields:
  "textContent reload_final 0 = js ''a-b'' @ [0x2026]"
  "textContent reload_final (Suc 0) = js ''...''"
  "processedNodes reload_final = {Suc 0, 0}"
  by (simp_all add: reload_final_scan performScan_def scan_document_eq all_walk_def body_walk_def
      replaceNodes_Cons visit_def acceptNode_def reload_toggled_fields default_ellipsis
      text_dash_changes updateStorageWithResults_def Let_def sum_counts_def no_fixes_def)

text \<open>
  Claim C2, as amended. On \<^verbatim>\<open>settingsUpdated\<close> the processor loads the settings from the
  storage and then scans at once: the world after the message is what \<^verbatim>\<open>performScan\<close> makes of
  the world with the loaded settings. It does not clear \<^verbatim>\<open>processedNodes\<close>: every node in the
  set before the message is in it afterwards, and the scan leaves the text of these nodes as
  it is.
\<close>

theorem settings_reload:
  "onMessage now href SettingsUpdated w = (w', r) \<Longrightarrow>
     w' = performScan now href (w\<lparr>settings := loadSettings (sync w)\<rparr>) \<and>
     r = SettingsResponse \<and>
     settings w' = loadSettings (sync w) \<and>
     processedNodes w \<subseteq> processedNodes w' \<and>
     (\<forall>n \<in> processedNodes w. textContent w' n = textContent w n)"
proof -
  let ?w0 = "w\<lparr>settings := loadSettings (sync w)\<rparr>"
  assume "onMessage now href SettingsUpdated w = (w', r)"
  then have "w' = performScan now href ?w0" and "r = SettingsResponse"
    by (simp_all add: performImmediateScan_def Let_def)
  with performScan_processed [of now href ?w0] show ?thesis by simp
qed

text \<open>
  The theorem at the reload example, after the popup has enabled the ellipsis category: the
  scan that follows the reload rewrites the ellipsis of the node that was not yet marked, and
  leaves the marked node as it is.
\<close>

theorem settings_reload_witness:
  "onMessage 2000 example_href SettingsUpdated reload_toggled = (reload_final, SettingsResponse) \<and>
   reload_final =
     performScan 2000 example_href (reload_toggled\<lparr>settings := loadSettings (sync reload_toggled)\<rparr>) \<and>
   settings reload_final = loadSettings (sync reload_toggled) \<and>
   processedNodes reload_toggled = {0} \<and>
   textContent reload_final 0 = textContent reload_toggled 0 \<and>
   textContent reload_toggled 1 = [0x2026] \<and>
   textContent reload_final 1 = js ''...'' \<and>
   processedNodes reload_final = {1, 0}"
proof -
  from settings_reload [OF reload_final_eq]
  have "reload_final =
     performScan 2000 example_href (reload_toggled\<lparr>settings := loadSettings (sync reload_toggled)\<rparr>)"
    and "settings reload_final = loadSettings (sync reload_toggled)"
    and "textContent reload_final 0 = textContent reload_toggled 0"
    by (simp_all add: reload_toggled_fields(1))
  moreover have "textContent reload_toggled 1 = [0x2026]"
    and "textContent reload_final 1 = js ''...''"
    and "processedNodes reload_final = {1, 0}"
    by (simp_all add: reload_toggled_fields reload_final_fields)
  ultimately show ?thesis
    using reload_final_eq reload_toggled_fields(1) by blast
qed

text \<open>
  Claim C2 as stated fails. A node is rewritten and marked while the ellipsis category is
  disabled; the category is then enabled and \<^verbatim>\<open>settingsUpdated\<close> arrives. After the reload and
  its scan the node is still in \<^verbatim>\<open>processedNodes\<close>, its ellipsis is still there, and the
  filter rejects the node although the pre-check now finds something to do.
\<close>

theorem reload_keeps_processed_set:
  "\<not> fixEllipsis (settings reload_world) \<and>
   reload_after_scan = performScan 1000 example_href reload_world \<and>
   0 \<in> processedNodes reload_after_scan \<and>
   reload_toggled = reload_after_scan\<lparr>sync := (sync reload_after_scan)\<lparr>s_fixEllipsis := Some True\<rparr>\<rparr> \<and>
   onMessage 2000 example_href SettingsUpdated reload_toggled = (reload_final, SettingsResponse) \<and>
   fixEllipsis (settings reload_final) \<and>
   0 \<in> processedNodes reload_final \<and>
   textContent reload_final 0 = js ''a-b'' @ [0x2026] \<and>
   needsProcessing (settings reload_final) (textContent reload_final 0) \<and>
   \<not> acceptNode reload_final 0 False"
proof -
  have st: "settings reload_final = default_settings"
    unfolding reload_final_scan
    using performScan_processed
      [of 2000 example_href "reload_toggled\<lparr>settings := loadSettings (sync reload_toggled)\<rparr>"]
    by (simp add: reload_toggled_fields)
  have p: "0 \<in> processedNodes reload_final"
    and t: "textContent reload_final 0 = js ''a-b'' @ [0x2026]"
    by (simp_all add: reload_final_fields)
  have e: "fixEllipsis (settings reload_final)"
    by (simp add: st default_settings_eq)
  have n: "needsProcessing (settings reload_final) (textContent reload_final 0)"
    using e by (simp add: t needsProcessing_def test_class_def js_def class_defs)
  have "\<not> fixEllipsis (settings reload_world)"
    by (simp add: reload_world_def loadSettings_def reload_storage_def)
  moreover have "0 \<in> processedNodes reload_after_scan"
    by (simp add: reload_after_scan_fields)
  moreover have "\<not> acceptNode reload_final 0 False"
    using p by (simp add: acceptNode_def)
  moreover note e p t n reload_final_eq reload_after_scan_def reload_toggled_def
  ultimately show ?thesis by blast
qed

end
